theory Spec2Isabelle
  imports Main "HOL-Library.Word" "HOL-Library.Sublist"
begin

unbundle bit_operations_syntax

section \<open>Strings: the part of Go's \<open>strings\<close> package that the hotkey parser calls\<close>

text \<open>
  A Go string is a sequence of bytes, here a \<^typ>\<open>string\<close> (a list of 8-bit characters).
  \<open>strings.Index\<close> returns the position of the first occurrence of \<open>substr\<close>, or \<open>-1\<close>
  (here \<open>None\<close>) when there is none.
\<close>

fun Index :: "string \<Rightarrow> string \<Rightarrow> nat option" where
  "Index [] substr = (if substr = [] then Some 0 else None)"
| "Index (c # cs) substr =
     (if prefix substr (c # cs) then Some 0 else map_option Suc (Index cs substr))"

text \<open>
  With an empty separator \<open>strings.Split\<close> cuts the string after each UTF-8 sequence
  (\<open>explode\<close>), and a byte that begins no valid sequence is cut off alone. How long the
  sequence at the head of a string is, is what \<open>utf8.DecodeRuneInString\<close> returns as
  \<open>size\<close>. \<open>first\<close> holds the tables \<open>first\<close> and \<open>acceptRanges\<close> of package \<open>unicode/utf8\<close>:
  for a leading byte the length of its sequence and the range of the second byte, and
  \<open>None\<close> for a byte that stands alone (ASCII, or no leading byte at all).
\<close>

definition first :: "nat \<Rightarrow> (nat \<times> nat \<times> nat) option" where
  "first b =
     (if b < 0xC2 then None
      else if b < 0xE0 then Some (2, 0x80, 0xBF)
      else if b = 0xE0 then Some (3, 0xA0, 0xBF)
      else if b < 0xED then Some (3, 0x80, 0xBF)
      else if b = 0xED then Some (3, 0x80, 0x9F)
      else if b < 0xF0 then Some (3, 0x80, 0xBF)
      else if b = 0xF0 then Some (4, 0x90, 0xBF)
      else if b < 0xF4 then Some (4, 0x80, 0xBF)
      else if b = 0xF4 then Some (4, 0x80, 0x8F)
      else None)"

definition byte :: "string \<Rightarrow> nat \<Rightarrow> nat" where
  "byte s i = of_char (s ! i)"

definition DecodeRuneInString :: "string \<Rightarrow> nat" where
  "DecodeRuneInString s =
     (let n = length s in
      if n < 1 then 0
      else
        case first (byte s 0) of
          None \<Rightarrow> 1
        | Some (sz, lo, hi) \<Rightarrow>
            if n < sz then 1
            else if byte s 1 < lo \<or> hi < byte s 1 then 1
            else if sz \<le> 2 then 2
            else if byte s 2 < 0x80 \<or> 0xBF < byte s 2 then 1
            else if sz \<le> 3 then 3
            else if byte s 3 < 0x80 \<or> 0xBF < byte s 3 then 1
            else 4)"

lemma first_Some:
  "first b = Some (sz, lo, hi) \<Longrightarrow>
   0xC2 \<le> b \<and> (sz = 2 \<or> sz = 3 \<or> sz = 4) \<and> 0x80 \<le> lo"
  by (auto simp: first_def split: if_splits)

lemma DecodeRuneInString_cases:
  assumes "s \<noteq> []"
  shows "DecodeRuneInString s = 1 \<or>
         (\<exists>sz lo hi. first (byte s 0) = Some (sz, lo, hi) \<and>
            DecodeRuneInString s = sz \<and> sz \<le> length s \<and> 0x80 \<le> byte s 1 \<and>
            (2 < sz \<longrightarrow> 0x80 \<le> byte s 2) \<and> (3 < sz \<longrightarrow> 0x80 \<le> byte s 3))"
proof (cases "first (byte s 0)")
  case None
  with assms show ?thesis
    by (simp add: DecodeRuneInString_def)
next
  case (Some t)
  obtain sz lo hi where f: "first (byte s 0) = Some (sz, lo, hi)"
    using Some by (cases t) auto
  from first_Some [OF f] have lo: "0x80 \<le> lo" and "sz = 2 \<or> sz = 3 \<or> sz = 4"
    by simp_all
  then consider "sz = 2" | "sz = 3" | "sz = 4" by blast
  then show ?thesis
  proof cases
    case 1
    with assms f lo show ?thesis
      by (simp add: DecodeRuneInString_def Let_def)
  next
    case 2
    with assms f lo show ?thesis
      by (simp add: DecodeRuneInString_def Let_def)
  next
    case 3
    with assms f lo show ?thesis
      by (simp add: DecodeRuneInString_def Let_def)
  qed
qed

lemma DecodeRuneInString_bounds:
  assumes "s \<noteq> []"
  shows "1 \<le> DecodeRuneInString s \<and> DecodeRuneInString s \<le> length s"
proof -
  from assms have "1 \<le> length s" by (cases s) simp_all
  moreover from DecodeRuneInString_cases [OF assms]
  have "DecodeRuneInString s = 1 \<or>
        (\<exists>sz lo hi. first (byte s 0) = Some (sz, lo, hi) \<and>
           DecodeRuneInString s = sz \<and> sz \<le> length s)"
    by blast
  ultimately show ?thesis
    using first_Some by fastforce
qed

text \<open>
  \<open>explode(s, -1)\<close> counts the sequences of \<open>s\<close> (\<open>utf8.RuneCountInString\<close>, which cuts as
  \<open>DecodeRuneInString\<close> does), cuts off all but the last one by one and takes what is left
  as the last: that is, it cuts sequence after sequence until nothing is left.
\<close>

function explode :: "string \<Rightarrow> string list" where
  "explode s =
     (if s = [] then []
      else let size = DecodeRuneInString s in take size s # explode (drop size s))"
  by pat_completeness auto

termination explode
proof (relation "measure length")
  show "wf (measure length)" by simp
next
  fix s :: string and size :: nat
  assume "s \<noteq> []" and "size = DecodeRuneInString s"
  with DecodeRuneInString_bounds [of s] have "1 \<le> size" by simp
  with \<open>s \<noteq> []\<close> show "(drop size s, s) \<in> measure length" by simp
qed

declare explode.simps [simp del]

text \<open>
  \<open>strings.Split(s, sep)\<close> is \<open>genSplit(s, sep, 0, -1)\<close>: the empty separator explodes the
  string, otherwise the string is cut at each leftmost occurrence of the separator, and
  what remains is the last element. The result for a non-empty separator is never empty.
\<close>

function genSplit :: "string \<Rightarrow> string \<Rightarrow> string list" where
  "genSplit s sep =
     (if sep = [] then explode s
      else case Index s sep of
             None \<Rightarrow> [s]
           | Some m \<Rightarrow> take m s # genSplit (drop (m + length sep) s) sep)"
  by pat_completeness auto

lemma Index_bound: "Index s substr = Some m \<Longrightarrow> m + length substr \<le> length s"
proof (induction s arbitrary: m)
  case Nil
  then show ?case by (simp split: if_splits)
next
  case (Cons c cs)
  show ?case
  proof (cases "prefix substr (c # cs)")
    case True
    with Cons.prems show ?thesis by (auto dest: prefix_length_le)
  next
    case False
    with Cons.prems obtain k where "Index cs substr = Some k" "m = Suc k" by auto
    with Cons.IH show ?thesis by simp
  qed
qed

termination genSplit
proof (relation "measure (\<lambda>(s, sep). length s)")
  show "wf (measure (\<lambda>(s, sep). length s))" by simp
next
  fix s sep :: string and m :: nat
  assume sep: "sep \<noteq> []" and "Index s sep = Some m"
  then have "m + length sep \<le> length s"
    by (rule_tac Index_bound)
  moreover from sep have "0 < length sep"
    by simp
  ultimately have "length s - (m + length sep) < length s"
    by arith
  then show "((drop (m + length sep) s, sep), (s, sep)) \<in> measure (\<lambda>(s, sep). length s)"
    by simp
qed

declare genSplit.simps [simp del]

definition Split :: "string \<Rightarrow> string \<Rightarrow> string list" where
  "Split s sep = genSplit s sep"

text \<open>\<open>strings.Join(elems, sep)\<close>: the elements with \<open>sep\<close> between them.\<close>

fun Join :: "string list \<Rightarrow> string \<Rightarrow> string" where
  "Join [] sep = []"
| "Join [e] sep = e"
| "Join (e # es) sep = e @ sep @ Join es sep"


section \<open>Key and modifier vocabulary\<close>

text \<open>\<open>type Modifier uint8\<close> and \<open>type Key uint16\<close>, with the constants of the source.\<close>

type_synonym Modifier = "8 word"
type_synonym Key = "16 word"

definition ModAlt :: Modifier where "ModAlt = 0x1"
definition ModCtrl :: Modifier where "ModCtrl = 0x2"
definition ModShift :: Modifier where "ModShift = 0x4"
definition ModWin :: Modifier where "ModWin = 0x8"

definition keyCodeWin :: "string \<rightharpoonup> Key" where
  "keyCodeWin = map_of
     [(''space'', 0x20),
      (''0'', 0x30), (''1'', 0x31), (''2'', 0x32), (''3'', 0x33), (''4'', 0x34),
      (''5'', 0x35), (''6'', 0x36), (''7'', 0x37), (''8'', 0x38), (''9'', 0x39),
      (''a'', 0x41), (''b'', 0x42), (''c'', 0x43), (''d'', 0x44), (''e'', 0x45),
      (''f'', 0x46), (''g'', 0x47), (''h'', 0x48), (''i'', 0x49), (''j'', 0x4A),
      (''k'', 0x4B), (''l'', 0x4C), (''m'', 0x4D), (''n'', 0x4E), (''o'', 0x4F),
      (''p'', 0x50), (''q'', 0x51), (''r'', 0x52), (''s'', 0x53), (''t'', 0x54),
      (''u'', 0x55), (''v'', 0x56), (''w'', 0x57), (''x'', 0x58), (''y'', 0x59),
      (''z'', 0x5A),
      (''return'', 0x0D), (''escape'', 0x1B), (''esc'', 0x1B), (''delete'', 0x2E),
      (''tab'', 0x09),
      (''left'', 0x25), (''right'', 0x27), (''up'', 0x26), (''down'', 0x28),
      (''f1'', 0x70), (''f2'', 0x71), (''f3'', 0x72), (''f4'', 0x73), (''f5'', 0x74),
      (''f6'', 0x75), (''f7'', 0x76), (''f8'', 0x77), (''f9'', 0x78), (''f10'', 0x79),
      (''f11'', 0x7A), (''f12'', 0x7B), (''f13'', 0x7C), (''f14'', 0x7D), (''f15'', 0x7E),
      (''f16'', 0x7F), (''f17'', 0x80), (''f18'', 0x81), (''f19'', 0x82), (''f20'', 0x83)]"


section \<open>Normalising a hotkey string: \<open>getHkInfo\<close> and \<open>getModifier\<close>\<close>

text \<open>
  \<open>getHkInfo\<close> reads the package variable \<open>splitStr\<close> (initially \<open>"_"\<close>, changed by
  \<open>SetSplitStr\<close>); the model takes it as its first argument. \<open>k0\<close> is the array
  \<open>[4]string\<close> of the source, one slot per modifier in the order win, ctrl, shift, alt.

  The short form (exactly two tokens, as in \<open>csa_a\<close>) reads the letters of the first token
  and takes the second as the key name; every other length reads whole tokens, and the
  last token that is no modifier name is the key name.
\<close>

definition shortLetter :: "string list \<Rightarrow> string \<Rightarrow> string list" where
  "shortLetter k0 v =
     (if v = ''w'' then k0[0 := ''w'']
      else if v = ''c'' then k0[1 := ''c'']
      else if v = ''s'' then k0[2 := ''s'']
      else if v = ''a'' then k0[3 := ''a'']
      else k0)"

definition longToken :: "string list \<times> string \<Rightarrow> string \<Rightarrow> string list \<times> string" where
  "longToken st v =
     (case st of (k0, keyName) \<Rightarrow>
        if v = ''win'' then (k0[0 := ''w''], keyName)
        else if v = ''ctrl'' then (k0[1 := ''c''], keyName)
        else if v = ''shift'' then (k0[2 := ''s''], keyName)
        else if v = ''alt'' then (k0[3 := ''a''], keyName)
        else (k0, v))"

definition getHkInfo :: "string \<Rightarrow> string \<Rightarrow> string \<Rightarrow> string \<times> string \<times> string" where
  "getHkInfo splitStr hkStr signalStr =
     (let hkList = Split hkStr splitStr;
          hkLen = length hkList
      in if hkLen = 0 then ('''', '''', '''')
         else
           let (k0, keyName) =
                 (if hkLen = 2
                  then (foldl shortLetter [[], [], [], []] (Split (hkList ! 0) ''''),
                        hkList ! 1)
                  else foldl longToken ([[], [], [], []], '''') hkList);
               modifierSort = Join k0 '''';
               signal = (if signalStr = ''up'' \<or> signalStr = ''press''
                         then signalStr else ''down'')
           in (modifierSort, keyName, signal))"

definition appendMod :: "Modifier list \<Rightarrow> string \<Rightarrow> Modifier list" where
  "appendMod ms v =
     (if v = ''w'' then ms @ [ModWin]
      else if v = ''c'' then ms @ [ModCtrl]
      else if v = ''s'' then ms @ [ModShift]
      else if v = ''a'' then ms @ [ModAlt]
      else ms)"

definition getModifier :: "string \<Rightarrow> Modifier list" where
  "getModifier modifier =
     (if length modifier > 0 then foldl appendMod [] (Split modifier '''') else [])"


section \<open>A hotkey and the goroutines that serve it\<close>

text \<open>
  A Go \<open>error\<close> is \<open>nil\<close> or an error value: \<^typ>\<open>'a option\<close> over the errors below. The
  package makes its own errors with \<open>errors.New\<close>; the others come out of the \<open>win\<close>
  package (the wrappers of the system calls), which lies outside the package modelled
  here; its errors are told apart by a number.
\<close>

datatype error = errors_New string | win_error nat

text \<open>
  A callback is a closure the application hands in; its body is unknown to the package,
  so it is a mere name here, and calling it is recorded as an effect. The other effect of
  the event loop is the default action taken when a callback is missing:
  \<open>fmt.Println(hk.String() + suffix)\<close>, recorded with its suffix.
\<close>

type_synonym func = nat

datatype effect = Call func | Println_String string

text \<open>
  The two closures sent over \<open>hk.funcs\<close>: the one of \<open>register\<close>, which captures the
  modifier mask, and the one of \<open>unregister\<close>.
\<close>

datatype cmd = registerCmd "8 word" | unregisterCmd

text \<open>
  The two release-poll sub-tasks (\<open>go func() { ... }()\<close>) that the event loop starts: the
  one of the \<open>down\<close>/\<open>press\<close> branch and the one of the \<open>up\<close> branch.
\<close>

datatype poller = DownPoller | UpPoller

text \<open>
  \<open>platformHotkey\<close> and \<open>Hotkey\<close> are the structs of the source (the second embeds the
  first; the mutex is left out, see \<open>register\<close>). \<open>canceled\<close> tells whether the channel
  \<open>hk.canceled\<close> has been closed, \<open>funcs\<close> holds the closures whose senders are blocked on
  the unbuffered channel \<open>hk.funcs\<close>.

  \<open>hotkey_state\<close> adds the state of the goroutines working for the hotkey: whether the
  event loop \<open>handle\<close> is still running, its local variables \<open>keyDown\<close>, \<open>keyUp\<close>,
  \<open>keyPress\<close> (shared with its sub-tasks), the sub-tasks in flight, the variables
  \<open>ok, err\<close> that the closure of \<open>register\<close> writes, and the effects performed so far, in
  order of time.
\<close>

record platformHotkey =
  hotkeyId :: "64 word"
  registered :: bool
  funcs :: "cmd list"
  canceled :: bool

record Hotkey = platformHotkey +
  Signal :: string
  Callbacks :: "func list"
  mods :: "Modifier list"
  key :: Key

record hotkey_state = Hotkey +
  ok_err :: "bool \<times> error option"
  running :: bool
  keyDown :: bool
  keyUp :: bool
  keyPress :: bool
  pollers :: "poller list"
  out :: "effect list"

text \<open>
  \<open>New\<close>: a hotkey with the given modifiers and key code, every other field at its zero
  value, and no goroutine yet. (The finalizer that \<open>New\<close> installs runs \<open>unregister\<close> when
  the garbage collector finds the hotkey unreachable; garbage collection is not modelled.)
\<close>

definition New :: "Modifier list \<Rightarrow> Key \<Rightarrow> hotkey_state" where
  "New ms k =
     \<lparr>hotkeyId = 0, registered = False, funcs = [], canceled = False,
      Signal = '''', Callbacks = [], mods = ms, key = k,
      ok_err = (False, None), running = False,
      keyDown = False, keyUp = False, keyPress = False, pollers = [], out = []\<rparr>"


section \<open>The event loop \<open>handle\<close>\<close>

text \<open>
  The system calls are inputs of the model. \<open>win.RegisterHotKey(0, id, mod, key)\<close> is a
  function from its arguments to the pair \<open>(ok, err)\<close> it returns; the result of
  \<open>win.UnregisterHotKey\<close> is thrown away by the source, so the call leaves no trace.
  What one iteration of the loop gets from the system is a \<open>poll\<close>: the results of
  \<open>PeekMessage\<close> and \<open>GetMessage\<close>, the code \<open>msg.Message\<close>, and \<open>coin\<close>, the choice
  Go's \<open>select\<close> makes when both of its channels are ready.
\<close>

type_synonym RegisterHotKey = "64 word \<Rightarrow> 8 word \<Rightarrow> Key \<Rightarrow> bool \<times> error option"

record poll =
  PeekMessage :: bool
  coin :: bool
  GetMessage :: bool
  Message :: "32 word"

definition wmHotkey :: "32 word" where "wmHotkey = 0x0312"
definition wmQuit :: "32 word" where "wmQuit = 0x0012"

definition emit :: "effect \<Rightarrow> hotkey_state \<Rightarrow> hotkey_state" where
  "emit e hk = hk\<lparr>out := out hk @ [e]\<rparr>"

text \<open>Running a closure received from \<open>hk.funcs\<close>.\<close>

fun run_cmd :: "RegisterHotKey \<Rightarrow> cmd \<Rightarrow> hotkey_state \<Rightarrow> hotkey_state" where
  "run_cmd os (registerCmd m) hk = hk\<lparr>ok_err := os (hotkeyId hk) m (key hk)\<rparr>"
| "run_cmd os unregisterCmd hk = hk\<lparr>canceled := True\<rparr>"

text \<open>
  The \<open>select\<close> of the loop: a closure is received when a sender waits on \<open>hk.funcs\<close>,
  the loop returns when \<open>hk.canceled\<close> is closed, and \<open>default\<close> is taken when neither is
  the case. When both are ready Go chooses one of the two at random.
\<close>

datatype select_case = RecvFunc | RecvCanceled | Default

definition select_case :: "poll \<Rightarrow> hotkey_state \<Rightarrow> select_case" where
  "select_case p hk =
     (if funcs hk \<noteq> [] \<and> canceled hk then (if coin p then RecvFunc else RecvCanceled)
      else if funcs hk \<noteq> [] then RecvFunc
      else if canceled hk then RecvCanceled
      else Default)"

text \<open>The branch \<open>case wmHotkey\<close> of the loop.\<close>

definition on_wmHotkey :: "hotkey_state \<Rightarrow> hotkey_state" where
  "on_wmHotkey hk =
     (if Signal hk = ''down'' \<or> Signal hk = ''press'' then
        if \<not> keyDown hk then
          let hk = hk\<lparr>keyDown := True\<rparr>;
              hk = (if Signal hk = ''press'' then
                      (emit (if length (Callbacks hk) > 0 then Call (Callbacks hk ! 0)
                             else Println_String '' start'') hk)\<lparr>keyPress := True\<rparr>
                    else
                      emit (if length (Callbacks hk) > 0 then Call (Callbacks hk ! 0)
                            else Println_String '''') hk)
          in hk\<lparr>pollers := pollers hk @ [DownPoller]\<rparr>
        else hk
      else if Signal hk = ''up'' then
        if \<not> keyUp hk then
          let hk = hk\<lparr>keyUp := True\<rparr>
          in hk\<lparr>pollers := pollers hk @ [UpPoller]\<rparr>
        else hk
      else hk)"

text \<open>
  One iteration of \<open>for range tk.C\<close> in \<open>handle\<close>. The ticker's channel is never closed, so
  the loop ends only by a \<open>return\<close>, which clears \<open>running\<close>; a loop that has returned does
  nothing any more.
\<close>

definition handle_tick :: "RegisterHotKey \<Rightarrow> poll \<Rightarrow> hotkey_state \<Rightarrow> hotkey_state" where
  "handle_tick os p hk =
     (if \<not> running hk then hk
      else if \<not> PeekMessage p then
        (case select_case p hk of
           RecvFunc \<Rightarrow> run_cmd os (hd (funcs hk)) (hk\<lparr>funcs := tl (funcs hk)\<rparr>)
         | RecvCanceled \<Rightarrow> hk\<lparr>running := False\<rparr>
         | Default \<Rightarrow> hk)
      else if \<not> GetMessage p then hk\<lparr>running := False\<rparr>
      else if Message p = wmHotkey then on_wmHotkey hk
      else if Message p = wmQuit then hk\<lparr>running := False\<rparr>
      else hk)"

text \<open>
  One iteration of the \<open>i\<close>-th release-poll sub-task in flight, \<open>state\<close> being what
  \<open>win.GetAsyncKeyState(int(hk.key))\<close> returns. A sub-task that sees \<open>0\<close> acts and leaves
  its loop (\<open>break\<close>), and is in flight no more.
\<close>

definition poller_tick :: "nat \<Rightarrow> 16 word \<Rightarrow> hotkey_state \<Rightarrow> hotkey_state" where
  "poller_tick i state hk =
     (if i < length (pollers hk) then
        (case pollers hk ! i of
           DownPoller \<Rightarrow>
             if state = 0 then
               let hk = hk\<lparr>keyDown := False\<rparr>;
                   hk = (if keyPress hk then
                           (emit (if length (Callbacks hk) > 1 then Call (Callbacks hk ! 1)
                                  else Println_String '' end'') hk)\<lparr>keyPress := False\<rparr>
                         else hk)
               in hk\<lparr>pollers := take i (pollers hk) @ drop (Suc i) (pollers hk)\<rparr>
             else hk
         | UpPoller \<Rightarrow>
             if state = 0 then
               let hk = emit (if length (Callbacks hk) > 0 then Call (Callbacks hk ! 0)
                              else Println_String '''') hk;
                   hk = hk\<lparr>keyUp := False\<rparr>
               in hk\<lparr>pollers := take i (pollers hk) @ drop (Suc i) (pollers hk)\<rparr>
             else hk)
      else hk)"

text \<open>
  The goroutines of one hotkey run interleaved. An event is one iteration of one of
  them, taken as a whole: the interleavings inside an iteration (the source shares
  \<open>keyDown\<close>, \<open>keyUp\<close> and \<open>keyPress\<close> without synchronisation) are not modelled.
\<close>

datatype event = Tick poll | Poll nat "16 word"

fun step :: "RegisterHotKey \<Rightarrow> event \<Rightarrow> hotkey_state \<Rightarrow> hotkey_state" where
  "step os (Tick p) hk = handle_tick os p hk"
| "step os (Poll i state) hk = poller_tick i state hk"

fun run :: "RegisterHotKey \<Rightarrow> event list \<Rightarrow> hotkey_state \<Rightarrow> hotkey_state" where
  "run os [] hk = hk"
| "run os (e # es) hk = run os es (step os e hk)"


section \<open>\<open>register\<close> and \<open>unregister\<close>\<close>

text \<open>
  Both send a closure over \<open>hk.funcs\<close> and wait until the event loop has run it
  (\<open><-done\<close>). \<open>serve\<close> is that wait: the events are what the goroutines of the hotkey do
  while the caller is blocked, and the wait is over with the event in which the loop
  takes the closure. \<open>None\<close> is a caller that stays blocked: the events have run out, which
  is also the case of a loop that has returned before it took the closure.
\<close>

fun serve :: "RegisterHotKey \<Rightarrow> event list \<Rightarrow> hotkey_state \<Rightarrow> hotkey_state option" where
  "serve os [] hk = None"
| "serve os (e # es) hk =
     (let hk = step os e hk in if funcs hk = [] then Some hk else serve os es hk)"

text \<open>
  \<open>register\<close> takes the hotkey and the package variable \<open>hotkeyId\<close> (the counter of
  identifiers, advanced by \<open>atomic.AddUint64\<close>) and returns the error, the hotkey and the
  counter. The mutex \<open>hk.mu\<close> is held from the first line to the return, so that calls on
  one hotkey do not overlap; the model runs them one after the other and has no lock.
  \<open>go hk.handle()\<close> starts a loop with fresh local variables. The state has room for
  one event loop per hotkey, which is all there ever is: the package calls \<open>register\<close>
  only on a hotkey that \<open>New\<close> has just made.
\<close>

definition register ::
  "RegisterHotKey \<Rightarrow> event list \<Rightarrow> hotkey_state \<times> 64 word \<Rightarrow>
     (error option \<times> hotkey_state \<times> 64 word) option" where
  "register os evs st =
     (case st of (hk, counter) \<Rightarrow>
        if registered hk then Some (Some (errors_New ''hotkey already registered''), hk, counter)
        else
          let m = foldl (OR) 0 (mods hk);
              counter = counter + 1;
              hk = hk\<lparr>hotkeyId := counter, funcs := [], canceled := False\<rparr>;
              hk = hk\<lparr>running := True, keyDown := False, keyUp := False, keyPress := False\<rparr>;
              hk = hk\<lparr>ok_err := (False, None)\<rparr>;
              hk = hk\<lparr>funcs := funcs hk @ [registerCmd m]\<rparr>
          in case serve os evs hk of
               None \<Rightarrow> None
             | Some hk \<Rightarrow>
                 if \<not> fst (ok_err hk) then Some (snd (ok_err hk), hk\<lparr>canceled := True\<rparr>, counter)
                 else Some (None, hk\<lparr>registered := True\<rparr>, counter))"

definition unregister ::
  "RegisterHotKey \<Rightarrow> event list \<Rightarrow> hotkey_state \<Rightarrow> (error option \<times> hotkey_state) option" where
  "unregister os evs hk =
     (if \<not> registered hk then Some (Some (errors_New ''hotkey is not registered''), hk)
      else
        case serve os evs (hk\<lparr>funcs := funcs hk @ [unregisterCmd]\<rparr>) of
          None \<Rightarrow> None
        | Some hk \<Rightarrow> Some (None, hk\<lparr>registered := False\<rparr>))"


section \<open>The registry: \<open>Register\<close> and \<open>Unregister\<close>\<close>

text \<open>
  The package variables: the map \<open>registeredHotkey\<close>, the counter \<open>hotkeyId\<close> and the
  separator \<open>splitStr\<close>. The map holds pointers; every pointer is made by \<open>New\<close> inside
  \<open>Register\<close> and stored under one key only, so the map of the model holds the hotkeys
  themselves, and what \<open>register\<close> or \<open>unregister\<close> does to a hotkey is written back to
  its entry.
\<close>

record world =
  registeredHotkey :: "string \<rightharpoonup> hotkey_state"
  hotkeyIdCounter :: "64 word"
  splitStr :: string

definition SetSplitStr :: "string \<Rightarrow> world \<Rightarrow> world" where
  "SetSplitStr str w = w\<lparr>splitStr := str\<rparr>"

definition Register ::
  "RegisterHotKey \<Rightarrow> event list \<Rightarrow> world \<Rightarrow> string \<Rightarrow> string \<Rightarrow> func list \<Rightarrow>
     (error option \<times> world) option" where
  "Register os evs w modifier key' callbacks =
     (case getHkInfo (splitStr w) modifier key' of (modifierSort, keyName, signal) \<Rightarrow>
        case keyCodeWin keyName of
          None \<Rightarrow> Some (Some (errors_New ''key error''), w)
        | Some keyCode \<Rightarrow>
            let md = getModifier modifierSort;
                hk = New md keyCode;
                hk = hk\<lparr>Signal := signal\<rparr>;
                hk = hk\<lparr>Callbacks := callbacks\<rparr>;
                k = modifierSort @ keyName @ signal;
                w = w\<lparr>registeredHotkey := (registeredHotkey w)(k \<mapsto> hk)\<rparr>
            in case register os evs (hk, hotkeyIdCounter w) of
                 None \<Rightarrow> None
               | Some (err, hk, counter) \<Rightarrow>
                   Some (err, w\<lparr>registeredHotkey := (registeredHotkey w)(k \<mapsto> hk),
                                hotkeyIdCounter := counter\<rparr>))"

definition Unregister ::
  "RegisterHotKey \<Rightarrow> event list \<Rightarrow> world \<Rightarrow> string \<Rightarrow> string \<Rightarrow>
     (error option \<times> world) option" where
  "Unregister os evs w modifier key' =
     (case getHkInfo (splitStr w) modifier key' of (modifierSort, keyName, signal) \<Rightarrow>
        let k = modifierSort @ keyName @ signal in
        case registeredHotkey w k of
          None \<Rightarrow> Some (None, w)
        | Some hk \<Rightarrow>
            (case unregister os evs hk of
               None \<Rightarrow> None
             | Some (Some err, hk) \<Rightarrow>
                 Some (Some err, w\<lparr>registeredHotkey := (registeredHotkey w)(k \<mapsto> hk)\<rparr>)
             | Some (None, hk) \<Rightarrow>
                 Some (None, w\<lparr>registeredHotkey := (registeredHotkey w)(k := None)\<rparr>)))"


section \<open>Notions used in the statements, and the examples\<close>

text \<open>
  The modifiers that \<open>getHkInfo\<close> recognises in a list of tokens, letter by letter: in
  the short form (two tokens) the letters of the first token, otherwise the tokens that
  are the name of a modifier.
\<close>

definition modName :: "char \<Rightarrow> string" where
  "modName c =
     (if c = CHR ''w'' then ''win''
      else if c = CHR ''c'' then ''ctrl''
      else if c = CHR ''s'' then ''shift''
      else ''alt'')"

definition isRecognized :: "string list \<Rightarrow> char \<Rightarrow> bool" where
  "isRecognized hkList c =
     (if length hkList = 2 then c \<in> set (hkList ! 0) else modName c \<in> set hkList)"


text \<open>
  The key of the registry under which \<open>Register\<close> and \<open>Unregister\<close> file a hotkey: the
  three results of \<open>getHkInfo\<close>, concatenated.
\<close>

definition identity :: "world \<Rightarrow> string \<Rightarrow> string \<Rightarrow> string" where
  "identity w modifier key' =
     (case getHkInfo (splitStr w) modifier key' of
        (modifierSort, keyName, signal) \<Rightarrow> modifierSort @ keyName @ signal)"

text \<open>
  The two actions of a \<open>press\<close> hotkey: at the interrupt \<open>Callbacks[0]\<close>, at the release
  \<open>Callbacks[1]\<close>; a callback that is missing is replaced by a line printed with the
  name of the hotkey, and no callback is called.
\<close>

definition press_primary :: "hotkey_state \<Rightarrow> effect" where
  "press_primary hk =
     (if length (Callbacks hk) > 0 then Call (Callbacks hk ! 0) else Println_String '' start'')"

definition press_secondary :: "hotkey_state \<Rightarrow> effect" where
  "press_secondary hk =
     (if length (Callbacks hk) > 1 then Call (Callbacks hk ! 1) else Println_String '' end'')"

text \<open>
  The action of an \<open>up\<close> hotkey at the release: \<open>Callbacks[0]\<close>, or the line with the
  name of the hotkey when there is no callback.
\<close>

definition up_release :: "hotkey_state \<Rightarrow> effect" where
  "up_release hk =
     (if length (Callbacks hk) > 0 then Call (Callbacks hk ! 0) else Println_String '''')"

text \<open>
  Two kinds of events in the life of a hotkey: a release, that is an iteration of a
  sub-task that finds the key released, and an interrupt, that is an iteration of the event
  loop that retrieves a hotkey message.
\<close>

definition is_release :: "event \<Rightarrow> bool" where
  "is_release e = (case e of Tick p \<Rightarrow> False | Poll i state \<Rightarrow> state = 0)"

definition is_interrupt :: "event \<Rightarrow> bool" where
  "is_interrupt e =
     (case e of
        Tick p \<Rightarrow> PeekMessage p \<and> GetMessage p \<and> Message p = wmHotkey
      | Poll i state \<Rightarrow> False)"

text \<open>
  What \<open>Register\<close> gets from its attempt to register a new hotkey for a hotkey string:
  the error \<open>key error\<close> for a key name that is not in the table, and otherwise the answer
  of \<open>win.RegisterHotKey\<close> to the next identifier, the modifier mask and the key code:
  \<open>nil\<close> when the system accepts, the system's error when it refuses.
\<close>

definition attempt_result :: "RegisterHotKey \<Rightarrow> world \<Rightarrow> string \<Rightarrow> string \<Rightarrow> error option" where
  "attempt_result os w modifier key' =
     (case getHkInfo (splitStr w) modifier key' of (modifierSort, keyName, signal) \<Rightarrow>
        case keyCodeWin keyName of
          None \<Rightarrow> Some (errors_New ''key error'')
        | Some keyCode \<Rightarrow>
            let r = os (hotkeyIdCounter w + 1) (foldl (OR) 0 (getModifier modifierSort)) keyCode
            in if fst r then None else snd r)"

text \<open>
  Inputs and states of the examples: a poll that finds no message, a poll that retrieves
  a hotkey message; a system that accepts every registration, one that refuses every
  registration, and one that accepts the first identifier only (as Windows does when the
  same combination is registered again: error 1409, hot key already registered); the
  package state at start; and the hotkeys and package states that the examples pass
  through.
\<close>

definition idle_poll :: poll where
  "idle_poll = \<lparr>PeekMessage = False, coin = False, GetMessage = False, Message = 0\<rparr>"

definition hotkey_poll :: poll where
  "hotkey_poll = \<lparr>PeekMessage = True, coin = False, GetMessage = True, Message = wmHotkey\<rparr>"

definition os_accepts :: RegisterHotKey where
  "os_accepts i m k = (True, None)"

definition os_refuses :: RegisterHotKey where
  "os_refuses i m k = (False, Some (win_error 1409))"

definition os_first_only :: RegisterHotKey where
  "os_first_only i m k = (if i = 1 then (True, None) else (False, Some (win_error 1409)))"

definition empty_world :: world where
  "empty_world = \<lparr>registeredHotkey = Map.empty, hotkeyIdCounter = 0, splitStr = ''_''\<rparr>"

definition hk_first :: hotkey_state where
  "hk_first =
     \<lparr>hotkeyId = 1, registered = True, funcs = [], canceled = False,
      Signal = ''press'', Callbacks = [7, 8], mods = [ModCtrl, ModShift], key = 0x44,
      ok_err = (True, None), running = True,
      keyDown = False, keyUp = False, keyPress = False, pollers = [], out = []\<rparr>"

definition hk_second :: hotkey_state where
  "hk_second =
     \<lparr>hotkeyId = 2, registered = False, funcs = [], canceled = True,
      Signal = ''press'', Callbacks = [9], mods = [ModCtrl, ModShift], key = 0x44,
      ok_err = (False, Some (win_error 1409)), running = True,
      keyDown = False, keyUp = False, keyPress = False, pollers = [], out = []\<rparr>"

definition world_first :: world where
  "world_first =
     \<lparr>registeredHotkey = [''csdpress'' \<mapsto> hk_first], hotkeyIdCounter = 1, splitStr = ''_''\<rparr>"

definition world_second :: world where
  "world_second =
     \<lparr>registeredHotkey = [''csdpress'' \<mapsto> hk_second], hotkeyIdCounter = 2, splitStr = ''_''\<rparr>"

definition hk_one :: hotkey_state where
  "hk_one =
     \<lparr>hotkeyId = 1, registered = True, funcs = [], canceled = False,
      Signal = ''press'', Callbacks = [7], mods = [ModCtrl, ModShift], key = 0x44,
      ok_err = (True, None), running = True,
      keyDown = False, keyUp = False, keyPress = False, pollers = [], out = []\<rparr>"

definition hk_stale :: hotkey_state where
  "hk_stale =
     \<lparr>hotkeyId = 1, registered = False, funcs = [], canceled = True,
      Signal = ''down'', Callbacks = [7], mods = [ModCtrl, ModShift], key = 0x5A,
      ok_err = (False, Some (win_error 1409)), running = True,
      keyDown = False, keyUp = False, keyPress = False, pollers = [], out = []\<rparr>"

definition world_stale :: world where
  "world_stale =
     \<lparr>registeredHotkey = [''cszdown'' \<mapsto> hk_stale], hotkeyIdCounter = 1, splitStr = ''_''\<rparr>"

definition hk_held :: hotkey_state where
  "hk_held =
     \<lparr>hotkeyId = 1, registered = True, funcs = [], canceled = False,
      Signal = ''press'', Callbacks = [7, 8], mods = [ModCtrl, ModShift], key = 0x44,
      ok_err = (True, None), running = True,
      keyDown = True, keyUp = False, keyPress = True, pollers = [DownPoller],
      out = [Call 7]\<rparr>"

definition hk_unregistered :: hotkey_state where
  "hk_unregistered = hk_held\<lparr>canceled := True, registered := False\<rparr>"

definition world_held :: world where
  "world_held =
     \<lparr>registeredHotkey = [''csdpress'' \<mapsto> hk_held], hotkeyIdCounter = 1, splitStr = ''_''\<rparr>"


section \<open>Normalisation of the identity\<close>

lemma Split_empty_sep: "Split s [] = explode s"
  by (simp add: Split_def genSplit.simps)

lemma genSplit_nonempty: "sep \<noteq> [] \<Longrightarrow> genSplit s sep \<noteq> []"
  by (subst genSplit.simps) (simp split: option.splits)

lemma explode_Nil_iff: "explode s = [] \<longleftrightarrow> s = []"
  by (subst explode.simps) (simp add: Let_def)

lemma Split_Nil_iff: "Split s sep = [] \<longleftrightarrow> s = [] \<and> sep = []"
proof (cases "sep = []")
  case True
  then show ?thesis by (simp add: Split_empty_sep explode_Nil_iff)
next
  case False
  then show ?thesis by (simp add: Split_def genSplit_nonempty)
qed

text \<open>
  Every byte of a sequence longer than one byte is \<open>0x80\<close> or more. So an ASCII letter
  of a string is always an element of its own when the string is exploded.
\<close>

lemma multi_bytes:
  assumes "1 < DecodeRuneInString s" "i < DecodeRuneInString s"
  shows "0x80 \<le> byte s i"
proof -
  from assms(1) have ne: "s \<noteq> []" by (auto simp: DecodeRuneInString_def)
  from DecodeRuneInString_cases [OF ne] assms(1)
  obtain sz lo hi where f: "first (byte s 0) = Some (sz, lo, hi)"
    and sz: "DecodeRuneInString s = sz"
    and b1: "0x80 \<le> byte s 1"
    and b2: "2 < sz \<longrightarrow> 0x80 \<le> byte s 2"
    and b3: "3 < sz \<longrightarrow> 0x80 \<le> byte s 3"
    by auto
  from first_Some [OF f] have b0: "0x80 \<le> byte s 0" and "sz = 2 \<or> sz = 3 \<or> sz = 4"
    by simp_all
  with assms(2) sz have "i = 0 \<or> i = 1 \<or> i = 2 \<and> 2 < sz \<or> i = 3 \<and> 3 < sz"
    by auto
  with b0 b1 b2 b3 show ?thesis by auto
qed

lemma ascii_rune:
  assumes "s \<noteq> []" "of_char c < (0x80 :: nat)"
  shows "c \<in> set (take (DecodeRuneInString s) s) \<longleftrightarrow> take (DecodeRuneInString s) s = [c]"
proof (cases "DecodeRuneInString s = 1")
  case True
  with assms(1) show ?thesis by (cases s) auto
next
  case False
  with DecodeRuneInString_bounds [OF assms(1)] have m: "1 < DecodeRuneInString s" by simp
  have "c \<notin> set (take (DecodeRuneInString s) s)"
  proof
    assume "c \<in> set (take (DecodeRuneInString s) s)"
    then obtain i where "i < DecodeRuneInString s" "i < length s" "c = s ! i"
      by (auto simp: in_set_conv_nth)
    with multi_bytes [OF m, of i] assms(2) show False
      by (simp add: byte_def)
  qed
  moreover from m DecodeRuneInString_bounds [OF assms(1)]
  have "length (take (DecodeRuneInString s) s) \<noteq> 1" by simp
  then have "take (DecodeRuneInString s) s \<noteq> [c]"
    by (metis length_Cons list.size(3) One_nat_def)
  ultimately show ?thesis by simp
qed

lemma explode_ascii:
  "of_char c < (0x80 :: nat) \<Longrightarrow> [c] \<in> set (explode s) \<longleftrightarrow> c \<in> set s"
proof (induction s rule: explode.induct)
  case (1 s)
  show ?case
  proof (cases "s = []")
    case True
    then show ?thesis by (simp add: explode.simps)
  next
    case False
    let ?n = "DecodeRuneInString s"
    from False have e: "explode s = take ?n s # explode (drop ?n s)"
      by (subst explode.simps) (simp add: Let_def)
    from "1.IH" [OF False refl "1.prems"]
    have ih: "[c] \<in> set (explode (drop ?n s)) \<longleftrightarrow> c \<in> set (drop ?n s)" .
    have "c \<in> set s \<longleftrightarrow> c \<in> set (take ?n s) \<or> c \<in> set (drop ?n s)"
      by (metis Un_iff append_take_drop_id set_append)
    with e ih ascii_rune [OF False "1.prems"] show ?thesis
      by auto
  qed
qed

lemma explode_s_e_acute:
  "explode [CHR ''s'', CHR 0xC3, CHR 0xA9] = [[CHR ''s''], [CHR 0xC3, CHR 0xA9]]"
  by code_simp

lemma shortLetter_step:
  "shortLetter [a, b, c, d] v =
     [if v = ''w'' then ''w'' else a,
      if v = ''c'' then ''c'' else b,
      if v = ''s'' then ''s'' else c,
      if v = ''a'' then ''a'' else d]"
  by (simp add: shortLetter_def)

lemma foldl_shortLetter:
  "foldl shortLetter [a, b, c, d] vs =
     [if ''w'' \<in> set vs then ''w'' else a,
      if ''c'' \<in> set vs then ''c'' else b,
      if ''s'' \<in> set vs then ''s'' else c,
      if ''a'' \<in> set vs then ''a'' else d]"
proof (induction vs arbitrary: a b c d)
  case Nil
  then show ?case by simp
next
  case (Cons v vs)
  have "foldl shortLetter [a, b, c, d] (v # vs) =
        foldl shortLetter (shortLetter [a, b, c, d] v) vs"
    by simp
  also have "\<dots> =
     [if ''w'' \<in> set vs then ''w'' else if v = ''w'' then ''w'' else a,
      if ''c'' \<in> set vs then ''c'' else if v = ''c'' then ''c'' else b,
      if ''s'' \<in> set vs then ''s'' else if v = ''s'' then ''s'' else c,
      if ''a'' \<in> set vs then ''a'' else if v = ''a'' then ''a'' else d]"
    unfolding shortLetter_step by (rule Cons.IH)
  also have "\<dots> =
     [if ''w'' \<in> set (v # vs) then ''w'' else a,
      if ''c'' \<in> set (v # vs) then ''c'' else b,
      if ''s'' \<in> set (v # vs) then ''s'' else c,
      if ''a'' \<in> set (v # vs) then ''a'' else d]"
    by auto
  finally show ?case .
qed

lemma foldl_shortLetter_explode:
  "foldl shortLetter [a, b, c, d] (explode m) =
     [if CHR ''w'' \<in> set m then ''w'' else a,
      if CHR ''c'' \<in> set m then ''c'' else b,
      if CHR ''s'' \<in> set m then ''s'' else c,
      if CHR ''a'' \<in> set m then ''a'' else d]"
proof -
  have "''w'' \<in> set (explode m) \<longleftrightarrow> CHR ''w'' \<in> set m"
    "''c'' \<in> set (explode m) \<longleftrightarrow> CHR ''c'' \<in> set m"
    "''s'' \<in> set (explode m) \<longleftrightarrow> CHR ''s'' \<in> set m"
    "''a'' \<in> set (explode m) \<longleftrightarrow> CHR ''a'' \<in> set m"
    by (simp_all add: explode_ascii)
  then show ?thesis
    by (simp only: foldl_shortLetter)
qed

lemma longToken_step:
  "longToken ([a, b, c, d], k) t =
     ([if t = ''win'' then ''w'' else a,
       if t = ''ctrl'' then ''c'' else b,
       if t = ''shift'' then ''s'' else c,
       if t = ''alt'' then ''a'' else d],
      if t = ''win'' \<or> t = ''ctrl'' \<or> t = ''shift'' \<or> t = ''alt'' then k else t)"
  by (simp add: longToken_def)

lemma foldl_longToken:
  "fst (foldl longToken ([a, b, c, d], k) ts) =
     [if ''win'' \<in> set ts then ''w'' else a,
      if ''ctrl'' \<in> set ts then ''c'' else b,
      if ''shift'' \<in> set ts then ''s'' else c,
      if ''alt'' \<in> set ts then ''a'' else d]"
proof (induction ts arbitrary: a b c d k)
  case Nil
  then show ?case by simp
next
  case (Cons t ts)
  have "fst (foldl longToken ([a, b, c, d], k) (t # ts)) =
        fst (foldl longToken (longToken ([a, b, c, d], k) t) ts)"
    by simp
  also have "\<dots> =
     [if ''win'' \<in> set ts then ''w'' else if t = ''win'' then ''w'' else a,
      if ''ctrl'' \<in> set ts then ''c'' else if t = ''ctrl'' then ''c'' else b,
      if ''shift'' \<in> set ts then ''s'' else if t = ''shift'' then ''s'' else c,
      if ''alt'' \<in> set ts then ''a'' else if t = ''alt'' then ''a'' else d]"
    unfolding longToken_step by (rule Cons.IH)
  also have "\<dots> =
     [if ''win'' \<in> set (t # ts) then ''w'' else a,
      if ''ctrl'' \<in> set (t # ts) then ''c'' else b,
      if ''shift'' \<in> set (t # ts) then ''s'' else c,
      if ''alt'' \<in> set (t # ts) then ''a'' else d]"
    by auto
  finally show ?case .
qed

lemma modifierSort_short:
  assumes "length (Split hkStr sep) = 2"
  shows "fst (getHkInfo sep hkStr signalStr) =
         filter (\<lambda>c. c \<in> set (Split hkStr sep ! 0)) ''wcsa''"
proof -
  from assms have "Split hkStr sep \<noteq> []" by auto
  with assms show ?thesis
    by (simp add: getHkInfo_def Let_def Split_empty_sep foldl_shortLetter_explode)
qed

lemma modifierSort_long:
  assumes "length (Split hkStr sep) \<noteq> 2" "Split hkStr sep \<noteq> []"
  shows "fst (getHkInfo sep hkStr signalStr) =
         filter (\<lambda>c. modName c \<in> set (Split hkStr sep)) ''wcsa''"
  using assms by (simp add: getHkInfo_def Let_def split_def foldl_longToken modName_def)

lemma signal_default:
  assumes "Split hkStr sep \<noteq> []"
  shows "snd (snd (getHkInfo sep hkStr signalStr)) =
         (if signalStr = ''up'' \<or> signalStr = ''press'' then signalStr else ''down'')"
  using assms by (simp add: getHkInfo_def Let_def split_def)

lemma modifierSort_recognized:
  assumes "Split hkStr sep \<noteq> []"
  shows "fst (getHkInfo sep hkStr signalStr) = filter (isRecognized (Split hkStr sep)) ''wcsa''"
proof (cases "length (Split hkStr sep) = 2")
  case True
  then show ?thesis
    using modifierSort_short [OF True] by (simp add: isRecognized_def)
next
  case False
  then show ?thesis
    using modifierSort_long [OF False assms] by (simp add: isRecognized_def)
qed

lemma getHkInfo_no_tokens:
  assumes "Split hkStr sep = []"
  shows "getHkInfo sep hkStr signalStr = ('''', '''', '''')"
  using assms by (simp add: getHkInfo_def)

lemma getHkInfo_s_e_acute:
  "getHkInfo '''' [CHR ''s'', CHR 0xC3, CHR 0xA9] '''' =
     (''s'', [CHR 0xC3, CHR 0xA9], ''down'')"
  by code_simp

lemma Split_ctrl_shift_alt_z:
  "Split ''ctrl_shift_alt_z'' ''_'' = [''ctrl'', ''shift'', ''alt'', ''z'']"
  by code_simp

lemma Split_alt_shift_ctrl_alt_z:
  "Split ''alt_shift_ctrl_alt_z'' ''_'' = [''alt'', ''shift'', ''ctrl'', ''alt'', ''z'']"
  by code_simp

text \<open>
  Claim C10, as the source has it. \<open>sep\<close> is the value of \<open>splitStr\<close>.

  Whenever the hotkey string splits into at least one token, the first result of
  \<open>getHkInfo\<close> is the letters of the recognised modifiers in the fixed order \<open>w\<close>, \<open>c\<close>, \<open>s\<close>,
  \<open>a\<close> (win, ctrl, shift, alt), and the third result is \<open>down\<close> unless the signal argument
  is \<open>up\<close> or \<open>press\<close>. What is recognised depends on the form: with exactly two tokens
  the letters of the first token, otherwise the tokens that name a modifier. Hence two
  strings that are not of two tokens and have the same tokens, in any order and any number
  of times, have the same \<open>modifierSort\<close>; and so have two strings of two tokens whose
  first tokens have the same letters, in any order and any number of times.

  A string that splits into no token at all (only the empty string with the empty
  separator does) makes \<open>getHkInfo\<close> return three empty strings, the signal included.

  The statement is about every string of bytes and every separator: with the empty
  separator the tokens are the UTF-8 sequences of the string, and the letters of a
  first token are its bytes \<open>w\<close>, \<open>c\<close>, \<open>s\<close>, \<open>a\<close>, each of which is a sequence of its own.
\<close>

theorem getHkInfo_canonical:
  "(Split hkStr sep = [] \<longleftrightarrow> hkStr = [] \<and> sep = []) \<and>
   (Split hkStr sep = [] \<longrightarrow> getHkInfo sep hkStr signalStr = ('''', '''', '''')) \<and>
   (Split hkStr sep \<noteq> [] \<longrightarrow>
      fst (getHkInfo sep hkStr signalStr) = filter (isRecognized (Split hkStr sep)) ''wcsa'' \<and>
      snd (snd (getHkInfo sep hkStr signalStr)) =
        (if signalStr = ''up'' \<or> signalStr = ''press'' then signalStr else ''down'')) \<and>
   (length (Split hkStr sep) \<noteq> 2 \<and> length (Split hkStr' sep) \<noteq> 2 \<and>
      set (Split hkStr' sep) = set (Split hkStr sep) \<longrightarrow>
      fst (getHkInfo sep hkStr' signalStr') = fst (getHkInfo sep hkStr signalStr)) \<and>
   (length (Split hkStr sep) = 2 \<and> length (Split hkStr' sep) = 2 \<and>
      set (Split hkStr' sep ! 0) = set (Split hkStr sep ! 0) \<longrightarrow>
      fst (getHkInfo sep hkStr' signalStr') = fst (getHkInfo sep hkStr signalStr))"
proof (intro conjI impI)
  show "Split hkStr sep = [] \<longleftrightarrow> hkStr = [] \<and> sep = []"
    by (rule Split_Nil_iff)
next
  assume "Split hkStr sep = []"
  then show "getHkInfo sep hkStr signalStr = ('''', '''', '''')"
    by (rule getHkInfo_no_tokens)
next
  assume "Split hkStr sep \<noteq> []"
  then show "fst (getHkInfo sep hkStr signalStr) = filter (isRecognized (Split hkStr sep)) ''wcsa''"
    by (rule modifierSort_recognized)
next
  assume "Split hkStr sep \<noteq> []"
  then show "snd (snd (getHkInfo sep hkStr signalStr)) =
        (if signalStr = ''up'' \<or> signalStr = ''press'' then signalStr else ''down'')"
    by (rule signal_default)
next
  assume h: "length (Split hkStr sep) \<noteq> 2 \<and> length (Split hkStr' sep) \<noteq> 2 \<and>
      set (Split hkStr' sep) = set (Split hkStr sep)"
  show "fst (getHkInfo sep hkStr' signalStr') = fst (getHkInfo sep hkStr signalStr)"
  proof (cases "Split hkStr sep = []")
    case True
    with h have "Split hkStr' sep = []" by simp
    with True show ?thesis by (simp add: getHkInfo_no_tokens)
  next
    case False
    with h have "Split hkStr' sep \<noteq> []" by auto
    with False h show ?thesis by (simp add: modifierSort_long)
  qed
next
  assume "length (Split hkStr sep) = 2 \<and> length (Split hkStr' sep) = 2 \<and>
      set (Split hkStr' sep ! 0) = set (Split hkStr sep ! 0)"
  then show "fst (getHkInfo sep hkStr' signalStr') = fst (getHkInfo sep hkStr signalStr)"
    by (simp add: modifierSort_short)
qed

theorem getHkInfo_canonical_witness:
  "fst (getHkInfo ''_'' ''ctrl_shift_alt_z'' '''') = ''csa'' \<and>
   snd (snd (getHkInfo ''_'' ''ctrl_shift_alt_z'' '''')) = ''down'' \<and>
   fst (getHkInfo ''_'' ''alt_shift_ctrl_alt_z'' ''up'') =
     fst (getHkInfo ''_'' ''ctrl_shift_alt_z'' '''')"
  using getHkInfo_canonical
          [of "''ctrl_shift_alt_z''" "''_''" "''''" "''alt_shift_ctrl_alt_z''" "''up''"]
  by (simp add: Split_ctrl_shift_alt_z Split_alt_shift_ctrl_alt_z isRecognized_def
        modName_def insert_commute)

text \<open>
  Claim C10 as it is worded fails twice. The two modifier tokens of \<open>ctrl_shift\<close>, put the
  other way round, give another \<open>modifierSort\<close>, since a string of two tokens is read in
  the short form (\<open>c\<close> against \<open>s\<close>, and neither is \<open>cs\<close>). And with the empty separator the
  empty hotkey string has no token, so that the signal returned is the empty string and
  not \<open>down\<close>.
\<close>

theorem getHkInfo_counterexample:
  "fst (getHkInfo ''_'' ''ctrl_shift'' '''') \<noteq> fst (getHkInfo ''_'' ''shift_ctrl'' '''') \<and>
   snd (snd (getHkInfo '''' '''' '''')) \<noteq> ''down''"
  by code_simp


section \<open>The handle: no second registration\<close>

text \<open>
  Claim C8. \<open>register\<close> on a hotkey whose \<open>registered\<close> flag is set returns the error
  \<open>hotkey already registered\<close> at once and changes nothing: the hotkey and the counter of
  identifiers are returned as they were, no event loop is started, and the system is not
  called (the result is the same whatever \<open>RegisterHotKey\<close> would answer).
\<close>

theorem register_twice_rejected:
  "registered hk \<Longrightarrow>
   register os evs (hk, counter) =
     Some (Some (errors_New ''hotkey already registered''), hk, counter)"
  by (simp add: register_def)

theorem register_twice_rejected_witness:
  "register (\<lambda>i m k. (True, None)) []
     ((New [ModCtrl, ModShift] 0x5A)\<lparr>registered := True, hotkeyId := 1\<rparr>, 1) =
   Some (Some (errors_New ''hotkey already registered''),
         (New [ModCtrl, ModShift] 0x5A)\<lparr>registered := True, hotkeyId := 1\<rparr>, 1)"
  using register_twice_rejected
          [of "(New [ModCtrl, ModShift] 0x5A)\<lparr>registered := True, hotkeyId := 1\<rparr>"
              "\<lambda>i m k. (True, None)" "[]" 1]
  by (simp add: New_def)


section \<open>The registry: \<open>Unregister\<close>\<close>

lemma getHkInfo_cs_z_up: "getHkInfo ''_'' ''cs_z'' ''up'' = (''cs'', ''z'', ''up'')"
  by code_simp

lemma getHkInfo_cs_z_down: "getHkInfo ''_'' ''cs_z'' '''' = (''cs'', ''z'', ''down'')"
  by code_simp

text \<open>
  Claim C7. When the registry has no entry for the identity, \<open>Unregister\<close> returns \<open>nil\<close>
  and leaves the package state as it was; so does a second call right after the first.
  No goroutine is involved: the result does not depend on the events.
\<close>

theorem Unregister_absent:
  assumes "registeredHotkey w (identity w modifier key') = None"
  shows "Unregister os evs w modifier key' = Some (None, w) \<and>
         (case Unregister os evs w modifier key' of
            None \<Rightarrow> False
          | Some (err, w') \<Rightarrow> Unregister os' evs' w' modifier key' = Some (None, w'))"
proof -
  from assms have "Unregister os evs w modifier key' = Some (None, w)" for os evs
    by (simp add: Unregister_def Let_def identity_def split: prod.splits)
  then show ?thesis by simp
qed

theorem Unregister_absent_witness:
  "Unregister (\<lambda>i m k. (True, None)) []
     \<lparr>registeredHotkey = Map.empty, hotkeyIdCounter = 0, splitStr = ''_''\<rparr> ''cs_z'' ''up'' =
   Some (None, \<lparr>registeredHotkey = Map.empty, hotkeyIdCounter = 0, splitStr = ''_''\<rparr>)"
  using Unregister_absent
          [of "\<lparr>registeredHotkey = Map.empty, hotkeyIdCounter = 0, splitStr = ''_''\<rparr>"
              "''cs_z''" "''up''" "\<lambda>i m k. (True, None)" "[]"]
  by simp

lemma Unregister_stale:
  "Unregister os [] world_stale ''cs_z'' '''' =
     Some (Some (errors_New ''hotkey is not registered''), world_stale)"
  by (simp add: Unregister_def unregister_def getHkInfo_cs_z_down world_stale_def hk_stale_def)

lemma identity_world_stale: "identity world_stale ''cs_z'' '''' = ''cszdown''"
  by (simp add: identity_def getHkInfo_cs_z_down world_stale_def)

text \<open>
  Claim C4, as the source has it. \<open>Unregister\<close> returns an error exactly when the registry
  has an entry for the identity and the hotkey of that entry is not registered; the error
  is \<open>hotkey is not registered\<close>, and nothing is changed. It is the error that \<open>unregister\<close>
  returns on the evidence of the flag \<open>registered\<close> alone, before it sends anything to the
  event loop: it is the same whatever the system answers and whatever the goroutines do,
  and \<open>unregister\<close> returns no error for a hotkey that is registered. (The call of
  \<open>win.UnregisterHotKey\<close> is made by the event loop for a registered hotkey only, and its
  result is thrown away.) With no entry at all for the identity \<open>Unregister\<close> returns
  \<open>nil\<close>.
\<close>

theorem Unregister_error:
  "(Unregister os evs w modifier key' = Some (Some e, w') \<longleftrightarrow>
      (\<exists>hk. registeredHotkey w (identity w modifier key') = Some hk \<and> \<not> registered hk \<and>
            e = errors_New ''hotkey is not registered'' \<and> w' = w)) \<and>
   (\<not> registered hk \<longrightarrow>
      unregister os evs hk = Some (Some (errors_New ''hotkey is not registered''), hk)) \<and>
   (registered hk \<longrightarrow> unregister os evs hk \<noteq> Some (Some e, hk')) \<and>
   (registeredHotkey w (identity w modifier key') = None \<longrightarrow>
      Unregister os evs w modifier key' = Some (None, w))"
proof (intro conjI impI iffI)
  assume a: "Unregister os evs w modifier key' = Some (Some e, w')"
  obtain ms kn sg where g: "getHkInfo (splitStr w) modifier key' = (ms, kn, sg)"
    by (cases "getHkInfo (splitStr w) modifier key'") auto
  then have k: "identity w modifier key' = ms @ kn @ sg"
    by (simp add: identity_def)
  from a g obtain hk0 where hk0: "registeredHotkey w (ms @ kn @ sg) = Some hk0"
    by (auto simp: Unregister_def Let_def split: option.splits)
  have nr: "\<not> registered hk0"
  proof
    assume "registered hk0"
    with a g hk0 show False
      by (auto simp: Unregister_def Let_def unregister_def split: option.splits)
  qed
  then have u: "unregister os evs hk0 =
                  Some (Some (errors_New ''hotkey is not registered''), hk0)"
    by (simp add: unregister_def)
  have upd: "w\<lparr>registeredHotkey := (registeredHotkey w)(ms @ kn @ sg \<mapsto> hk0)\<rparr> = w"
    using hk0 by (simp add: fun_upd_idem)
  from a g hk0 u upd have "e = errors_New ''hotkey is not registered''" "w' = w"
    by (simp_all add: Unregister_def Let_def)
  with hk0 nr k
  show "\<exists>hk. registeredHotkey w (identity w modifier key') = Some hk \<and> \<not> registered hk \<and>
            e = errors_New ''hotkey is not registered'' \<and> w' = w"
    by simp
next
  assume "\<exists>hk. registeredHotkey w (identity w modifier key') = Some hk \<and> \<not> registered hk \<and>
            e = errors_New ''hotkey is not registered'' \<and> w' = w"
  then obtain hk0 where hk0: "registeredHotkey w (identity w modifier key') = Some hk0"
    and nr: "\<not> registered hk0" and e: "e = errors_New ''hotkey is not registered''"
    and w': "w' = w"
    by blast
  from nr e have u: "unregister os evs hk0 = Some (Some e, hk0)"
    by (simp add: unregister_def)
  obtain ms kn sg where g: "getHkInfo (splitStr w) modifier key' = (ms, kn, sg)"
    by (cases "getHkInfo (splitStr w) modifier key'") auto
  with hk0 have en: "registeredHotkey w (ms @ kn @ sg) = Some hk0"
    by (simp add: identity_def)
  then have upd: "w\<lparr>registeredHotkey := (registeredHotkey w)(ms @ kn @ sg \<mapsto> hk0)\<rparr> = w"
    by (simp add: fun_upd_idem)
  from g en u upd w' show "Unregister os evs w modifier key' = Some (Some e, w')"
    by (simp add: Unregister_def Let_def)
next
  assume "\<not> registered hk"
  then show "unregister os evs hk = Some (Some (errors_New ''hotkey is not registered''), hk)"
    by (simp add: unregister_def)
next
  assume "registered hk"
  then show "unregister os evs hk \<noteq> Some (Some e, hk')"
    by (simp add: unregister_def split: option.splits)
next
  assume "registeredHotkey w (identity w modifier key') = None"
  then show "Unregister os evs w modifier key' = Some (None, w)"
    by (simp add: Unregister_def Let_def identity_def split: prod.splits)
qed

theorem Unregister_error_witness:
  "Unregister os_refuses [] world_stale ''cs_z'' '''' =
     Some (Some (errors_New ''hotkey is not registered''), world_stale) \<and>
   unregister os_refuses [] hk_stale =
     Some (Some (errors_New ''hotkey is not registered''), hk_stale) \<and>
   unregister os_accepts [Tick idle_poll] hk_first \<noteq>
     Some (Some (errors_New ''hotkey is not registered''), hk_first) \<and>
   Unregister os_refuses [] empty_world ''cs_z'' '''' = Some (None, empty_world)"
proof -
  have entry: "registeredHotkey world_stale (identity world_stale ''cs_z'' '''') = Some hk_stale"
    unfolding identity_world_stale by (simp add: world_stale_def)
  have flag: "\<not> registered hk_stale"
    by (simp add: hk_stale_def)
  have live: "registered hk_first"
    by (simp add: hk_first_def)
  have none: "registeredHotkey empty_world (identity empty_world ''cs_z'' '''') = None"
    by (simp add: empty_world_def)
  from Unregister_error
         [where os = os_refuses and evs = "[]" and w = world_stale and modifier = "''cs_z''"
            and key' = "''''" and e = "errors_New ''hotkey is not registered''"
            and w' = world_stale and hk = hk_stale]
       entry flag
  have 1: "Unregister os_refuses [] world_stale ''cs_z'' '''' =
     Some (Some (errors_New ''hotkey is not registered''), world_stale)"
    and 2: "unregister os_refuses [] hk_stale =
     Some (Some (errors_New ''hotkey is not registered''), hk_stale)"
    by blast+
  from Unregister_error
         [where os = os_accepts and evs = "[Tick idle_poll]" and hk = hk_first
            and e = "errors_New ''hotkey is not registered''" and hk' = hk_first]
       live
  have 3: "unregister os_accepts [Tick idle_poll] hk_first \<noteq>
     Some (Some (errors_New ''hotkey is not registered''), hk_first)"
    by blast
  from Unregister_error
         [where os = os_refuses and evs = "[]" and w = empty_world and modifier = "''cs_z''"
            and key' = "''''"]
       none
  have 4: "Unregister os_refuses [] empty_world ''cs_z'' '''' = Some (None, empty_world)"
    by blast
  from 1 2 3 4 show ?thesis by simp
qed


section \<open>The event loop\<close>

lemma on_wmHotkey_keyDown:
  "Signal hk = ''down'' \<or> Signal hk = ''press'' \<Longrightarrow> keyDown hk \<Longrightarrow> on_wmHotkey hk = hk"
  by (simp add: on_wmHotkey_def)

lemma on_wmHotkey_keyUp:
  assumes "Signal hk = ''up''" "keyUp hk"
  shows "on_wmHotkey hk = hk"
proof -
  from assms(1) have "Signal hk \<noteq> ''down''" "Signal hk \<noteq> ''press''" by simp_all
  with assms show ?thesis by (simp add: on_wmHotkey_def)
qed

text \<open>
  Claim C6. The edge detector is down-active when \<open>keyDown\<close> is set (signals \<open>down\<close> and
  \<open>press\<close>) and waits for the release when \<open>keyUp\<close> is set (signal \<open>up\<close>). A hotkey message
  that the loop retrieves in such a state changes nothing at all: no callback is called,
  no sub-task is started, and the state of the hotkey is the same after the iteration.
\<close>

theorem repeated_interrupt_ignored:
  assumes "PeekMessage p" "GetMessage p" "Message p = wmHotkey"
    and "(Signal hk = ''down'' \<or> Signal hk = ''press'') \<and> keyDown hk \<or>
         Signal hk = ''up'' \<and> keyUp hk"
  shows "handle_tick os p hk = hk"
proof -
  from assms(4) have "on_wmHotkey hk = hk"
    using on_wmHotkey_keyDown on_wmHotkey_keyUp by blast
  with assms(1-3) show ?thesis by (simp add: handle_tick_def)
qed

theorem repeated_interrupt_ignored_witness:
  "handle_tick (\<lambda>i m k. (True, None))
     \<lparr>PeekMessage = True, coin = False, GetMessage = True, Message = wmHotkey\<rparr>
     ((New [ModCtrl] 0x5A)\<lparr>Signal := ''press'', running := True, keyDown := True,
        keyPress := True, pollers := [DownPoller], out := [Println_String '' start'']\<rparr>) =
   (New [ModCtrl] 0x5A)\<lparr>Signal := ''press'', running := True, keyDown := True,
        keyPress := True, pollers := [DownPoller], out := [Println_String '' start'']\<rparr>"
  using repeated_interrupt_ignored
          [of "\<lparr>PeekMessage = True, coin = False, GetMessage = True, Message = wmHotkey\<rparr>"
              "(New [ModCtrl] 0x5A)\<lparr>Signal := ''press'', running := True, keyDown := True,
                 keyPress := True, pollers := [DownPoller], out := [Println_String '' start'']\<rparr>"
              "\<lambda>i m k. (True, None)"]
  by (simp add: New_def)

lemma run_cmd_fields [simp]:
  "running (run_cmd os c hk) = running hk"
  "funcs (run_cmd os c hk) = funcs hk"
  "out (run_cmd os c hk) = out hk"
  "pollers (run_cmd os c hk) = pollers hk"
  by (cases c; simp)+

lemma on_wmHotkey_fields [simp]:
  "running (on_wmHotkey hk) = running hk"
  "funcs (on_wmHotkey hk) = funcs hk"
  "canceled (on_wmHotkey hk) = canceled hk"
  by (simp_all add: on_wmHotkey_def emit_def Let_def)

lemma wmHotkey_neq_wmQuit: "wmHotkey \<noteq> wmQuit"
  by (simp add: wmHotkey_def wmQuit_def)

text \<open>
  Claim C9. An iteration of a running loop ends the loop in exactly three cases: a
  message was pending, was retrieved and is \<open>wmQuit\<close>; no message was pending and the
  \<open>select\<close> took the closed channel \<open>hk.canceled\<close> (it is closed, and either no closure
  waits on \<open>hk.funcs\<close> or the choice between the two falls on \<open>hk.canceled\<close>); a message was
  pending and \<open>GetMessage\<close> failed. In every other case the loop goes on. An iteration takes
  at most one closure from \<open>hk.funcs\<close>, and none when a message was pending.
\<close>

theorem handle_tick_exits:
  assumes "running hk"
  shows "(\<not> running (handle_tick os p hk) \<longleftrightarrow>
            PeekMessage p \<and> GetMessage p \<and> Message p = wmQuit \<or>
            \<not> PeekMessage p \<and> canceled hk \<and> (funcs hk = [] \<or> \<not> coin p) \<or>
            PeekMessage p \<and> \<not> GetMessage p) \<and>
         (funcs (handle_tick os p hk) = funcs hk \<or>
            \<not> PeekMessage p \<and> funcs hk \<noteq> [] \<and> funcs (handle_tick os p hk) = tl (funcs hk))"
  using assms wmHotkey_neq_wmQuit
  by (auto simp: handle_tick_def select_case_def split: select_case.splits)

theorem handle_tick_exits_witness:
  "\<not> running (handle_tick (\<lambda>i m k. (True, None))
       \<lparr>PeekMessage = False, coin = False, GetMessage = False, Message = 0\<rparr>
       ((New [ModCtrl] 0x5A)\<lparr>Signal := ''down'', running := True, canceled := True\<rparr>)) \<and>
   running (handle_tick (\<lambda>i m k. (True, None))
       \<lparr>PeekMessage = False, coin = False, GetMessage = False, Message = 0\<rparr>
       ((New [ModCtrl] 0x5A)\<lparr>Signal := ''down'', running := True\<rparr>))"
  using handle_tick_exits
          [of "(New [ModCtrl] 0x5A)\<lparr>Signal := ''down'', running := True, canceled := True\<rparr>"
              "\<lambda>i m k. (True, None)"
              "\<lparr>PeekMessage = False, coin = False, GetMessage = False, Message = 0\<rparr>"]
        handle_tick_exits
          [of "(New [ModCtrl] 0x5A)\<lparr>Signal := ''down'', running := True\<rparr>"
              "\<lambda>i m k. (True, None)"
              "\<lparr>PeekMessage = False, coin = False, GetMessage = False, Message = 0\<rparr>"]
  by (simp add: New_def)

lemma on_wmHotkey_press:
  assumes "Signal hk = ''press''" "\<not> keyDown hk"
  shows "on_wmHotkey hk =
         hk\<lparr>keyDown := True, keyPress := True, pollers := pollers hk @ [DownPoller],
            out := out hk @ [press_primary hk]\<rparr>"
  using assms by (simp add: on_wmHotkey_def emit_def press_primary_def)

lemma poller_tick_held: "state \<noteq> 0 \<Longrightarrow> poller_tick i state hk = hk"
  by (simp add: poller_tick_def split: poller.splits)

lemma run_append: "run os (es @ fs) hk = run os fs (run os es hk)"
  by (induction es arbitrary: hk) simp_all

lemma poller_tick_release_press:
  assumes "pollers hk = [DownPoller]" "keyPress hk"
  shows "poller_tick 0 0 hk =
         hk\<lparr>keyDown := False, keyPress := False, pollers := [],
            out := out hk @ [press_secondary hk]\<rparr>"
  using assms by (simp add: poller_tick_def emit_def press_secondary_def)

lemma run_cmd_locals [simp]:
  "Signal (run_cmd os c hk) = Signal hk"
  "Callbacks (run_cmd os c hk) = Callbacks hk"
  "keyDown (run_cmd os c hk) = keyDown hk"
  "keyPress (run_cmd os c hk) = keyPress hk"
  by (cases c; simp)+

lemma handle_tick_while_held:
  assumes "Signal hk = ''press''" "keyDown hk"
  shows "Signal (handle_tick os p hk) = Signal hk \<and>
         Callbacks (handle_tick os p hk) = Callbacks hk \<and>
         keyDown (handle_tick os p hk) = keyDown hk \<and>
         keyPress (handle_tick os p hk) = keyPress hk \<and>
         pollers (handle_tick os p hk) = pollers hk \<and>
         out (handle_tick os p hk) = out hk"
proof -
  from assms have "on_wmHotkey hk = hk"
    by (simp add: on_wmHotkey_keyDown)
  then show ?thesis
    by (simp add: handle_tick_def split: select_case.splits)
qed

lemma step_while_held:
  assumes "Signal hk = ''press''" "keyDown hk" "\<not> is_release e"
  shows "Signal (step os e hk) = Signal hk \<and>
         Callbacks (step os e hk) = Callbacks hk \<and>
         keyDown (step os e hk) = keyDown hk \<and>
         keyPress (step os e hk) = keyPress hk \<and>
         pollers (step os e hk) = pollers hk \<and>
         out (step os e hk) = out hk"
proof (cases e)
  case (Tick p)
  with handle_tick_while_held [OF assms(1,2), of os p] show ?thesis by simp
next
  case (Poll i state)
  with assms(3) have "state \<noteq> 0" by (simp add: is_release_def)
  with Poll show ?thesis by (simp add: poller_tick_held)
qed

lemma run_while_held:
  assumes "Signal hk = ''press''" "keyDown hk" "\<forall>e \<in> set es. \<not> is_release e"
  shows "Signal (run os es hk) = Signal hk \<and>
         Callbacks (run os es hk) = Callbacks hk \<and>
         keyDown (run os es hk) = keyDown hk \<and>
         keyPress (run os es hk) = keyPress hk \<and>
         pollers (run os es hk) = pollers hk \<and>
         out (run os es hk) = out hk"
  using assms
proof (induction es arbitrary: hk)
  case Nil
  then show ?case by simp
next
  case (Cons e es)
  from Cons.prems have e: "\<not> is_release e" and es: "\<forall>e \<in> set es. \<not> is_release e"
    by simp_all
  note s = step_while_held [OF Cons.prems(1,2) e, of os]
  from s Cons.prems(1,2) have "Signal (step os e hk) = ''press''" "keyDown (step os e hk)"
    by simp_all
  from Cons.IH [OF this es] s show ?case by simp
qed

lemma handle_tick_no_interrupt:
  assumes "\<not> (PeekMessage p \<and> GetMessage p \<and> Message p = wmHotkey)"
  shows "pollers (handle_tick os p hk) = pollers hk \<and> out (handle_tick os p hk) = out hk"
  using assms by (auto simp: handle_tick_def split: select_case.splits)

lemma step_at_rest:
  assumes "pollers hk = []" "\<not> is_interrupt e"
  shows "pollers (step os e hk) = [] \<and> out (step os e hk) = out hk"
proof (cases e)
  case (Tick p)
  with assms(2) have "\<not> (PeekMessage p \<and> GetMessage p \<and> Message p = wmHotkey)"
    by (simp add: is_interrupt_def)
  from handle_tick_no_interrupt [OF this, of os hk] Tick assms(1) show ?thesis by simp
next
  case (Poll i state)
  with assms(1) show ?thesis by (simp add: poller_tick_def)
qed

lemma run_at_rest:
  assumes "pollers hk = []" "\<forall>e \<in> set es. \<not> is_interrupt e"
  shows "pollers (run os es hk) = [] \<and> out (run os es hk) = out hk"
  using assms
proof (induction es arbitrary: hk)
  case Nil
  then show ?case by simp
next
  case (Cons e es)
  from Cons.prems have e: "\<not> is_interrupt e" and es: "\<forall>e \<in> set es. \<not> is_interrupt e"
    by simp_all
  note s = step_at_rest [OF Cons.prems(1) e, of os]
  from Cons.IH [of "step os e hk"] s es show ?case by simp
qed

text \<open>
  Claim C5, as the source has it. A \<open>press\<close> hotkey at rest (loop running, \<open>keyDown\<close>
  clear, no sub-task in flight) gets one hotkey message. Then come any events that are
  no release (\<open>held\<close>: iterations of the loop with or without a message, with or without
  a closure, further hotkey messages among them, and polls of the sub-task that find the
  key held), then the poll of the sub-task that finds the key released, then any events
  that are no interrupt (\<open>after\<close>). The effects are: at the interrupt the primary action
  and nothing else; nothing more up to the release; at the release the secondary action;
  nothing more afterwards. So the primary action happens exactly once, at the interrupt,
  and the secondary action exactly once, at the detection of the release and not before.
  The actions are the callbacks \<open>Callbacks[0]\<close> and \<open>Callbacks[1]\<close>, and for a callback
  that is missing a line printed with the name of the hotkey.
\<close>

theorem press_edge:
  assumes "Signal hk = ''press''" "running hk" "\<not> keyDown hk" "pollers hk = []"
    and "PeekMessage p" "GetMessage p" "Message p = wmHotkey"
    and "\<forall>e \<in> set held. \<not> is_release e"
    and "\<forall>e \<in> set after. \<not> is_interrupt e"
  shows "let hk1 = handle_tick os p hk;
             hk2 = run os held hk1;
             hk3 = poller_tick 0 0 hk2;
             hk4 = run os after hk3
         in out hk1 = out hk @ [press_primary hk] \<and>
            out hk2 = out hk @ [press_primary hk] \<and>
            out hk3 = out hk @ [press_primary hk, press_secondary hk] \<and>
            out hk4 = out hk @ [press_primary hk, press_secondary hk] \<and>
            \<not> keyDown hk3 \<and> \<not> keyPress hk3 \<and> pollers hk3 = []"
proof -
  let ?hk1 = "hk\<lparr>keyDown := True, keyPress := True, pollers := pollers hk @ [DownPoller],
            out := out hk @ [press_primary hk]\<rparr>"
  let ?hk2 = "run os held ?hk1"
  let ?hk3 = "poller_tick 0 0 ?hk2"
  from assms(1-3,5-7) have 1: "handle_tick os p hk = ?hk1"
    by (simp add: handle_tick_def on_wmHotkey_press)
  from assms(1) have "Signal ?hk1 = ''press''" "keyDown ?hk1" by simp_all
  from run_while_held [OF this assms(8), of os] assms(4)
  have 2: "Callbacks ?hk2 = Callbacks hk" "keyPress ?hk2" "pollers ?hk2 = [DownPoller]"
    "out ?hk2 = out hk @ [press_primary hk]"
    by simp_all
  from 2(1) have sec: "press_secondary ?hk2 = press_secondary hk"
    by (simp add: press_secondary_def)
  from poller_tick_release_press [OF 2(3) 2(2)] 2(4) sec
  have 3: "out ?hk3 = out hk @ [press_primary hk, press_secondary hk]"
    "\<not> keyDown ?hk3" "\<not> keyPress ?hk3" "pollers ?hk3 = []"
    by simp_all
  from run_at_rest [OF 3(4) assms(9), of os] 3(1)
  have 4: "out (run os after ?hk3) = out hk @ [press_primary hk, press_secondary hk]"
    by simp
  from 2(4) 3 4 show ?thesis
    unfolding Let_def 1 by simp
qed

theorem press_edge_witness:
  "out (run os_accepts
          ([Tick hotkey_poll] @ [Tick idle_poll, Poll 0 1, Tick hotkey_poll, Poll 0 1] @
           [Poll 0 0] @ [Tick idle_poll, Poll 0 0]) hk_first) = [Call 7, Call 8]"
proof -
  have h: "Signal hk_first = ''press''" "running hk_first" "\<not> keyDown hk_first"
    "pollers hk_first = []"
    by (simp_all add: hk_first_def)
  have p: "PeekMessage hotkey_poll" "GetMessage hotkey_poll" "Message hotkey_poll = wmHotkey"
    by (simp_all add: hotkey_poll_def)
  have held: "\<forall>e \<in> set [Tick idle_poll, Poll 0 1, Tick hotkey_poll, Poll 0 1]. \<not> is_release e"
    by (simp add: is_release_def)
  have after: "\<forall>e \<in> set [Tick idle_poll, Poll 0 0]. \<not> is_interrupt e"
    by (simp add: is_interrupt_def idle_poll_def)
  from press_edge [OF h p held after, of os_accepts]
  have "out (run os_accepts [Tick idle_poll, Poll 0 0]
          (poller_tick 0 0
             (run os_accepts [Tick idle_poll, Poll 0 1, Tick hotkey_poll, Poll 0 1]
                (handle_tick os_accepts hotkey_poll hk_first)))) =
        out hk_first @ [press_primary hk_first, press_secondary hk_first]"
    by (simp add: Let_def)
  then show ?thesis
    by (simp add: run_append hk_first_def press_primary_def press_secondary_def)
qed

lemma register_hk_one:
  "register os_accepts [Tick idle_poll]
     ((New [ModCtrl, ModShift] 0x44)\<lparr>Signal := ''press'', Callbacks := [7]\<rparr>, 0) =
   Some (None, hk_one, 1)"
  by (simp add: register_def New_def ModCtrl_def ModShift_def Let_def handle_tick_def select_case_def
        idle_poll_def os_accepts_def hk_one_def)

lemma release_hk_one:
  "out (run os [Tick hotkey_poll, Poll 0 0] hk_one) = [Call 7, Println_String '' end'']"
  by (simp add: handle_tick_def on_wmHotkey_def poller_tick_def emit_def hotkey_poll_def
        hk_one_def)

text \<open>
  Claim C5 as it is worded fails in what it says of the missing callback. A \<open>press\<close>
  hotkey registered with \<open>Callbacks[0]\<close> alone gets an interrupt and then a release: the
  release is not without effect, as a no-op default would be, it prints the name of the
  hotkey followed by \<open>end\<close>.
\<close>

theorem press_default_counterexample:
  "register os_accepts [Tick idle_poll]
     ((New [ModCtrl, ModShift] 0x44)\<lparr>Signal := ''press'', Callbacks := [7]\<rparr>, 0) =
     Some (None, hk_one, 1) \<and>
   length (Callbacks hk_one) = 1 \<and>
   out (run os_accepts [Tick hotkey_poll] hk_one) = [Call 7] \<and>
   out (run os_accepts [Tick hotkey_poll, Poll 0 0] hk_one) =
     [Call 7, Println_String '' end''] \<and>
   out (run os_accepts [Tick hotkey_poll, Poll 0 0] hk_one) \<noteq>
     out (run os_accepts [Tick hotkey_poll] hk_one)"
proof -
  have 1: "length (Callbacks hk_one) = 1"
    by (simp add: hk_one_def)
  have 2: "out (run os_accepts [Tick hotkey_poll] hk_one) = [Call 7]"
    by (simp add: handle_tick_def on_wmHotkey_def emit_def hotkey_poll_def hk_one_def)
  from 1 2 register_hk_one release_hk_one [of os_accepts] show ?thesis
    by simp
qed


section \<open>Registration: what the closure of \<open>register\<close> brings back\<close>

lemma on_wmHotkey_struct [simp]:
  "hotkeyId (on_wmHotkey hk) = hotkeyId hk"
  "key (on_wmHotkey hk) = key hk"
  "ok_err (on_wmHotkey hk) = ok_err hk"
  "registered (on_wmHotkey hk) = registered hk"
  by (simp_all add: on_wmHotkey_def emit_def Let_def)

lemma poller_tick_struct [simp]:
  "hotkeyId (poller_tick i s hk) = hotkeyId hk"
  "key (poller_tick i s hk) = key hk"
  "ok_err (poller_tick i s hk) = ok_err hk"
  "registered (poller_tick i s hk) = registered hk"
  "funcs (poller_tick i s hk) = funcs hk"
  "canceled (poller_tick i s hk) = canceled hk"
  "running (poller_tick i s hk) = running hk"
  by (simp_all add: poller_tick_def emit_def Let_def split: poller.splits)

lemma handle_tick_register_pending:
  assumes "funcs hk = [registerCmd m]" "\<not> canceled hk"
  shows "funcs (handle_tick os p hk) = [] \<and>
           ok_err (handle_tick os p hk) = os (hotkeyId hk) m (key hk) \<or>
         funcs (handle_tick os p hk) = [registerCmd m] \<and> \<not> canceled (handle_tick os p hk) \<and>
           hotkeyId (handle_tick os p hk) = hotkeyId hk \<and> key (handle_tick os p hk) = key hk"
  using assms by (simp add: handle_tick_def select_case_def)

lemma step_register_pending:
  assumes "funcs hk = [registerCmd m]" "\<not> canceled hk"
  shows "funcs (step os e hk) = [] \<and> ok_err (step os e hk) = os (hotkeyId hk) m (key hk) \<or>
         funcs (step os e hk) = [registerCmd m] \<and> \<not> canceled (step os e hk) \<and>
           hotkeyId (step os e hk) = hotkeyId hk \<and> key (step os e hk) = key hk"
proof (cases e)
  case (Tick p)
  then show ?thesis
    using handle_tick_register_pending [OF assms, of os p] by simp
next
  case (Poll i s)
  with assms show ?thesis by simp
qed

lemma serve_register:
  "serve os evs hk = Some hk' \<Longrightarrow> funcs hk = [registerCmd m] \<Longrightarrow> \<not> canceled hk \<Longrightarrow>
   ok_err hk' = os (hotkeyId hk) m (key hk)"
proof (induction evs arbitrary: hk)
  case Nil
  then show ?case by simp
next
  case (Cons e evs)
  from step_register_pending [OF Cons.prems(2,3), of os e]
  show ?case
  proof
    assume "funcs (step os e hk) = [] \<and> ok_err (step os e hk) = os (hotkeyId hk) m (key hk)"
    with Cons.prems(1) show ?thesis by (simp add: Let_def)
  next
    assume a: "funcs (step os e hk) = [registerCmd m] \<and> \<not> canceled (step os e hk) \<and>
           hotkeyId (step os e hk) = hotkeyId hk \<and> key (step os e hk) = key hk"
    with Cons.prems(1) have "serve os evs (step os e hk) = Some hk'"
      by (simp add: Let_def)
    with a Cons.IH [of "step os e hk"] show ?thesis by simp
  qed
qed

lemma serve_idle_first:
  assumes "running hk" "funcs hk = [c]" "\<not> canceled hk" "\<not> PeekMessage p"
  shows "serve os (Tick p # evs) hk = Some (run_cmd os c (hk\<lparr>funcs := []\<rparr>))"
  using assms by (simp add: handle_tick_def select_case_def Let_def)

lemma register_result:
  assumes "register os evs (hk, counter) = Some (err, hk', counter')" "\<not> registered hk"
  shows "err = (let r = os (counter + 1) (foldl (OR) 0 (mods hk)) (key hk)
                in if fst r then None else snd r)"
proof -
  let ?hk = "hk\<lparr>hotkeyId := counter + 1, canceled := False, running := True,
               keyDown := False, keyUp := False, keyPress := False, ok_err := (False, None),
               funcs := [registerCmd (foldl (OR) 0 (mods hk))]\<rparr>"
  from assms obtain hk1 where s: "serve os evs ?hk = Some hk1"
    and e: "err = (if \<not> fst (ok_err hk1) then snd (ok_err hk1) else None)"
    by (auto simp: register_def Let_def split: option.splits if_splits)
  from serve_register [OF s, of "foldl (OR) 0 (mods hk)"]
  have "ok_err hk1 = os (counter + 1) (foldl (OR) 0 (mods hk)) (key hk)" by simp
  with e show ?thesis by (simp add: Let_def)
qed

lemma register_returns:
  assumes "\<not> registered hk" "\<not> PeekMessage p"
  shows "register os (Tick p # evs) (hk, counter) \<noteq> None"
  using assms by (simp add: register_def Let_def handle_tick_def select_case_def)


section \<open>The registry: \<open>Register\<close>\<close>

lemma getHkInfo_cs_d_press: "getHkInfo ''_'' ''cs_d'' ''press'' = (''cs'', ''d'', ''press'')"
  by code_simp

lemma keyCodeWin_d: "keyCodeWin ''d'' = Some 0x44"
  by (simp add: keyCodeWin_def)

lemma keyCodeWin_z: "keyCodeWin ''z'' = Some 0x5A"
  by (simp add: keyCodeWin_def)

lemma getModifier_cs: "getModifier ''cs'' = [ModCtrl, ModShift]"
  by code_simp

lemma mask_cs: "foldl (OR) 0 [ModCtrl, ModShift] = (6 :: 8 word)"
  by (simp add: ModCtrl_def ModShift_def)

lemma Register_first:
  "Register os_first_only [Tick idle_poll] empty_world ''cs_d'' ''press'' [7, 8] =
     Some (None, world_first)"
  by (simp add: Register_def empty_world_def getHkInfo_cs_d_press keyCodeWin_d getModifier_cs
        New_def register_def mask_cs Let_def handle_tick_def select_case_def idle_poll_def
        os_first_only_def hk_first_def world_first_def)

lemma Register_second:
  "Register os_first_only [Tick idle_poll] world_first ''cs_d'' ''press'' [9] =
     Some (Some (win_error 1409), world_second)"
  by (simp add: Register_def getHkInfo_cs_d_press keyCodeWin_d getModifier_cs
        New_def register_def mask_cs Let_def handle_tick_def select_case_def idle_poll_def
        os_first_only_def hk_first_def hk_second_def world_first_def world_second_def)

text \<open>
  Claim C2 as it is worded fails. \<open>Register("cs_d", "press", f7, f8)\<close> succeeds and files
  the hotkey \<open>hk_first\<close>, registered, under \<open>csdpress\<close>. The same call again, with another
  callback, makes a new hotkey, files it under the same key in place of the first, and
  only then tries to register it: the system refuses, and the call returns the system's
  error, not the error \<open>hotkey already registered\<close> of the package. The entry is now the
  second hotkey, which is not registered.
\<close>

theorem Register_duplicate_counterexample:
  "Register os_first_only [Tick idle_poll] empty_world ''cs_d'' ''press'' [7, 8] =
     Some (None, world_first) \<and>
   registeredHotkey world_first ''csdpress'' = Some hk_first \<and> registered hk_first \<and>
   Register os_first_only [Tick idle_poll] world_first ''cs_d'' ''press'' [9] =
     Some (Some (win_error 1409), world_second) \<and>
   win_error 1409 \<noteq> errors_New ''hotkey already registered'' \<and>
   registeredHotkey world_second ''csdpress'' = Some hk_second \<and> hk_second \<noteq> hk_first"
proof -
  have "hotkeyId hk_second \<noteq> hotkeyId hk_first"
    by (simp add: hk_first_def hk_second_def)
  then have 1: "hk_second \<noteq> hk_first" by auto
  have 2: "registeredHotkey world_first ''csdpress'' = Some hk_first"
    by (simp add: world_first_def)
  have 3: "registeredHotkey world_second ''csdpress'' = Some hk_second"
    by (simp add: world_second_def)
  have 4: "registered hk_first"
    by (simp add: hk_first_def)
  from 1 2 3 4 Register_first Register_second show ?thesis
    by simp
qed

text \<open>
  Claim C2, as the source has it. \<open>Register\<close> does not look into the registry: called
  for an identity that has an entry with a live registration, it makes a new hotkey and
  returns what the attempt to register that one gives (\<open>attempt_result\<close>): the error of the
  system when the system refuses the combination, \<open>nil\<close> when it accepts. And the call
  does return, as soon as the new event loop has an iteration with no message pending.
  (What becomes of the first entry is left open here.)
\<close>

theorem Register_second_call:
  assumes "registeredHotkey w (identity w modifier key') = Some hk0" "registered hk0"
  shows "(Register os evs w modifier key' cbs = Some (err, w') \<longrightarrow>
            err = attempt_result os w modifier key') \<and>
         (\<not> PeekMessage p \<longrightarrow> Register os (Tick p # evs') w modifier key' cbs \<noteq> None)"
proof (intro conjI impI)
  obtain ms kn sg where g: "getHkInfo (splitStr w) modifier key' = (ms, kn, sg)"
    by (cases "getHkInfo (splitStr w) modifier key'") auto
  {
    assume a: "Register os evs w modifier key' cbs = Some (err, w')"
    show "err = attempt_result os w modifier key'"
    proof (cases "keyCodeWin kn")
      case None
      with a g show ?thesis by (simp add: Register_def attempt_result_def)
    next
      case (Some kc)
      let ?hk = "(New (getModifier ms) kc)\<lparr>Signal := sg, Callbacks := cbs\<rparr>"
      from a g Some obtain hk' c' where
        r: "register os evs (?hk, hotkeyIdCounter w) = Some (err, hk', c')"
        by (auto simp: Register_def Let_def split: option.splits)
      have "\<not> registered ?hk" by (simp add: New_def)
      from register_result [OF r this] g Some show ?thesis
        by (simp add: attempt_result_def New_def)
    qed
  }
  {
    assume np: "\<not> PeekMessage p"
    show "Register os (Tick p # evs') w modifier key' cbs \<noteq> None"
    proof (cases "keyCodeWin kn")
      case None
      with g show ?thesis by (simp add: Register_def)
    next
      case (Some kc)
      have "register os (Tick p # evs')
              ((New (getModifier ms) kc)\<lparr>Signal := sg, Callbacks := cbs\<rparr>, hotkeyIdCounter w) \<noteq> None"
        using np by (intro register_returns) (simp_all add: New_def)
      with g Some show ?thesis
        by (auto simp: Register_def Let_def split: option.splits)
    qed
  }
qed

theorem Register_second_call_witness:
  "Register os_first_only [Tick idle_poll] world_first ''cs_d'' ''press'' [9] \<noteq> None \<and>
   attempt_result os_first_only world_first ''cs_d'' ''press'' = Some (win_error 1409)"
proof -
  have id: "identity world_first ''cs_d'' ''press'' = ''csdpress''"
    by (simp add: identity_def world_first_def getHkInfo_cs_d_press)
  have e: "registeredHotkey world_first (identity world_first ''cs_d'' ''press'') = Some hk_first"
    unfolding id by (simp add: world_first_def)
  have r: "registered hk_first" by (simp add: hk_first_def)
  have i: "\<not> PeekMessage idle_poll" by (simp add: idle_poll_def)
  from Register_second_call
         [OF e r, where os = os_first_only and evs = "[Tick idle_poll]" and cbs = "[9]"
            and err = "Some (win_error 1409)" and w' = world_second and p = idle_poll
            and evs' = "[]"]
       Register_second i
  show ?thesis by simp
qed

lemma Register_refused:
  "Register os_refuses [Tick idle_poll] empty_world ''cs_z'' '''' [7] =
     Some (Some (win_error 1409), world_stale)"
  by (simp add: Register_def empty_world_def getHkInfo_cs_z_down keyCodeWin_z getModifier_cs
        New_def register_def mask_cs Let_def handle_tick_def select_case_def idle_poll_def
        os_refuses_def hk_stale_def world_stale_def)

text \<open>
  Claim C3 at a failing input. The registry is empty and the system refuses the
  registration. \<open>Register("cs_z", "", f7)\<close> returns the system's error, and the registry
  then has an entry for the identity: \<open>Register\<close> files the new hotkey before it calls
  \<open>register\<close> and returns on the error without taking it out. The entry is a hotkey that
  is not registered (its event loop has been told to stop: \<open>canceled\<close>), and \<open>Unregister\<close>
  for the identity now fails with \<open>hotkey is not registered\<close> and leaves the entry where
  it is.
\<close>

theorem Register_failure_leaves_entry:
  "Register os_refuses [Tick idle_poll] empty_world ''cs_z'' '''' [7] =
     Some (Some (win_error 1409), world_stale) \<and>
   registeredHotkey world_stale ''cszdown'' = Some hk_stale \<and>
   \<not> registered hk_stale \<and>
   Unregister os_refuses [] world_stale ''cs_z'' '''' =
     Some (Some (errors_New ''hotkey is not registered''), world_stale)"
proof -
  have "registeredHotkey world_stale ''cszdown'' = Some hk_stale"
    by (simp add: world_stale_def)
  moreover have "\<not> registered hk_stale"
    by (simp add: hk_stale_def)
  ultimately show ?thesis
    using Register_refused Unregister_stale by simp
qed

text \<open>
  Claim C4 as it is worded fails. After the refused registration of claim C3 the
  identity has an entry, but no active one: its hotkey is not registered. \<open>Unregister\<close>
  for the identity is then not a success: it returns \<open>hotkey is not registered\<close>. And the
  error does not come from the release step of the system: no event of the event loop
  takes place during the call, so \<open>win.UnregisterHotKey\<close> is not even called.
\<close>

theorem Unregister_inactive_counterexample:
  "Register os_refuses [Tick idle_poll] empty_world ''cs_z'' '''' [7] =
     Some (Some (win_error 1409), world_stale) \<and>
   registeredHotkey world_stale (identity world_stale ''cs_z'' '''') = Some hk_stale \<and>
   \<not> registered hk_stale \<and>
   Unregister os_accepts [] world_stale ''cs_z'' '''' =
     Some (Some (errors_New ''hotkey is not registered''), world_stale)"
proof -
  have "registeredHotkey world_stale (identity world_stale ''cs_z'' '''') = Some hk_stale"
    unfolding identity_world_stale by (simp add: world_stale_def)
  moreover have "\<not> registered hk_stale"
    by (simp add: hk_stale_def)
  ultimately show ?thesis
    using Register_refused Unregister_stale [of os_accepts] by simp
qed


section \<open>Unregistration while a release-poll sub-task is in flight\<close>

lemma interrupt_hk_first: "run os [Tick hotkey_poll] hk_first = hk_held"
  by (simp add: handle_tick_def on_wmHotkey_def emit_def hotkey_poll_def hk_first_def hk_held_def)

lemma unregister_hk_held:
  "unregister os [Tick idle_poll] hk_held = Some (None, hk_unregistered)"
  by (simp add: unregister_def handle_tick_def select_case_def idle_poll_def hk_held_def
        hk_unregistered_def Let_def)

lemma Unregister_world_held:
  "Unregister os [Tick idle_poll] world_held ''cs_d'' ''press'' =
     Some (None, \<lparr>registeredHotkey = Map.empty, hotkeyIdCounter = 1, splitStr = ''_''\<rparr>)"
  by (simp add: Unregister_def getHkInfo_cs_d_press world_held_def unregister_hk_held)

lemma release_after_unregister:
  "out (run os [Tick idle_poll, Poll 0 0] hk_unregistered) = [Call 7, Call 8]"
  by (simp add: handle_tick_def select_case_def idle_poll_def poller_tick_def emit_def
        hk_unregistered_def hk_held_def)

text \<open>
  Claim C1 as it is worded fails. The \<open>press\<close> hotkey \<open>hk_first\<close> gets a hotkey message:
  \<open>Callbacks[0]\<close> is called and the release-poll sub-task starts (\<open>hk_held\<close>). With the
  sub-task in flight \<open>Unregister\<close> is called and returns \<open>nil\<close>; the entry is gone and the
  cancellation channel is closed (\<open>hk_unregistered\<close>). After that the event loop returns at
  its next iteration, and the sub-task, which never looks at the channel, finds the key
  released and calls \<open>Callbacks[1]\<close>: a callback of the hotkey fires after \<open>Unregister\<close>
  has returned.
\<close>

theorem Unregister_in_flight_counterexample:
  "run os_accepts [Tick hotkey_poll] hk_first = hk_held \<and>
   registeredHotkey world_held ''csdpress'' = Some hk_held \<and>
   Unregister os_accepts [Tick idle_poll] world_held ''cs_d'' ''press'' =
     Some (None, \<lparr>registeredHotkey = Map.empty, hotkeyIdCounter = 1, splitStr = ''_''\<rparr>) \<and>
   unregister os_accepts [Tick idle_poll] hk_held = Some (None, hk_unregistered) \<and>
   canceled hk_unregistered \<and>
   out hk_unregistered = [Call 7] \<and>
   out (run os_accepts [Tick idle_poll, Poll 0 0] hk_unregistered) = [Call 7, Call 8]"
proof -
  have "registeredHotkey world_held ''csdpress'' = Some hk_held"
    by (simp add: world_held_def)
  moreover have "canceled hk_unregistered" "out hk_unregistered = [Call 7]"
    by (simp_all add: hk_unregistered_def hk_held_def)
  ultimately show ?thesis
    using interrupt_hk_first unregister_hk_held Unregister_world_held release_after_unregister
    by simp
qed

lemma run_cmd_canceled [simp]:
  "canceled (run_cmd os c hk) = (canceled hk \<or> c = unregisterCmd)"
  by (cases c) simp_all

lemma handle_tick_unregister_pending:
  assumes "unregisterCmd \<in> set (funcs hk) \<or> canceled hk"
  shows "unregisterCmd \<in> set (funcs (handle_tick os p hk)) \<or> canceled (handle_tick os p hk)"
proof (cases "funcs hk")
  case Nil
  with assms show ?thesis
    by (simp add: handle_tick_def select_case_def)
next
  case (Cons c cs)
  with assms show ?thesis
    by (auto simp: handle_tick_def select_case_def)
qed

lemma step_unregister_pending:
  assumes "unregisterCmd \<in> set (funcs hk) \<or> canceled hk"
  shows "unregisterCmd \<in> set (funcs (step os e hk)) \<or> canceled (step os e hk)"
proof (cases e)
  case (Tick p)
  with handle_tick_unregister_pending [OF assms, of os p] show ?thesis by simp
next
  case (Poll i s)
  with assms show ?thesis by simp
qed

lemma serve_unregister:
  "serve os evs hk = Some hk' \<Longrightarrow> unregisterCmd \<in> set (funcs hk) \<or> canceled hk \<Longrightarrow>
   canceled hk'"
proof (induction evs arbitrary: hk)
  case Nil
  then show ?case by simp
next
  case (Cons e evs)
  note inv = step_unregister_pending [OF Cons.prems(2), of os e]
  show ?case
  proof (cases "funcs (step os e hk) = []")
    case True
    with Cons.prems(1) have "hk' = step os e hk" by (simp add: Let_def)
    with inv True show ?thesis by simp
  next
    case False
    with Cons.prems(1) have "serve os evs (step os e hk) = Some hk'" by (simp add: Let_def)
    from Cons.IH [OF this inv] show ?thesis .
  qed
qed

lemma unregister_closes:
  assumes "unregister os evs hk = Some (None, hk')"
  shows "canceled hk' \<and> \<not> registered hk'"
proof -
  from assms obtain hk1 where s: "serve os evs (hk\<lparr>funcs := funcs hk @ [unregisterCmd]\<rparr>) = Some hk1"
    and h: "hk' = hk1\<lparr>registered := False\<rparr>"
    by (auto simp: unregister_def split: if_splits option.splits)
  from serve_unregister [OF s] have "canceled hk1" by simp
  with h show ?thesis by simp
qed

lemma unregister_idle:
  assumes "registered hk" "running hk" "funcs hk = []" "\<not> canceled hk" "\<not> PeekMessage p"
  shows "unregister os (Tick p # evs) hk = Some (None, hk\<lparr>canceled := True, registered := False\<rparr>)"
  using assms by (simp add: unregister_def handle_tick_def select_case_def Let_def)

lemma handle_tick_canceled:
  assumes "running hk" "canceled hk" "funcs hk = []" "\<not> PeekMessage p"
  shows "handle_tick os p hk = hk\<lparr>running := False\<rparr>"
  using assms by (simp add: handle_tick_def select_case_def)

lemma handle_tick_returned: "\<not> running hk \<Longrightarrow> handle_tick os p hk = hk"
  by (simp add: handle_tick_def)

lemma poller_tick_ignores_canceled:
  "poller_tick i s (hk\<lparr>canceled := b\<rparr>) = (poller_tick i s hk)\<lparr>canceled := b\<rparr>"
  by (simp add: poller_tick_def emit_def Let_def split: poller.splits)

lemma poller_tick_potential:
  "length (out (poller_tick i s hk)) + length (pollers (poller_tick i s hk)) \<le>
   length (out hk) + length (pollers hk)"
  by (auto simp: poller_tick_def emit_def Let_def split: poller.splits)

lemma step_potential:
  assumes "\<not> running hk"
  shows "\<not> running (step os e hk) \<and>
         length (out (step os e hk)) + length (pollers (step os e hk)) \<le>
         length (out hk) + length (pollers hk)"
proof (cases e)
  case (Tick p)
  with assms show ?thesis by (simp add: handle_tick_returned)
next
  case (Poll i s)
  with assms poller_tick_potential [of i s hk] show ?thesis by simp
qed

lemma run_potential:
  "\<not> running hk \<Longrightarrow>
   length (out (run os evs hk)) + length (pollers (run os evs hk)) \<le>
   length (out hk) + length (pollers hk)"
proof (induction evs arbitrary: hk)
  case Nil
  then show ?case by simp
next
  case (Cons e evs)
  from step_potential [OF Cons.prems, of os e] Cons.IH [of "step os e hk"]
  show ?case by simp
qed

lemma poller_tick_release_up:
  assumes "pollers hk = [UpPoller]"
  shows "out (poller_tick 0 0 hk) = out hk @ [up_release hk]"
  using assms by (simp add: poller_tick_def emit_def up_release_def)

lemma Unregister_success:
  assumes "Unregister os evs w modifier key' = Some (None, w')"
    and "registeredHotkey w (identity w modifier key') = Some hk"
  shows "\<exists>hk'. unregister os evs hk = Some (None, hk') \<and>
               registeredHotkey w' (identity w modifier key') = None"
proof -
  obtain ms kn sg where g: "getHkInfo (splitStr w) modifier key' = (ms, kn, sg)"
    by (cases "getHkInfo (splitStr w) modifier key'") auto
  with assms(2) have e: "registeredHotkey w (ms @ kn @ sg) = Some hk"
    by (simp add: identity_def)
  from assms(1) g e obtain hk' where u: "unregister os evs hk = Some (None, hk')"
    and w': "w' = w\<lparr>registeredHotkey := (registeredHotkey w)(ms @ kn @ sg := None)\<rparr>"
    by (auto simp: Unregister_def Let_def split: option.splits)
  from w' g have "registeredHotkey w' (identity w modifier key') = None"
    by (simp add: identity_def)
  with u show ?thesis by blast
qed

text \<open>
  Claim C1, as the source has it. An \<open>Unregister\<close> that returns \<open>nil\<close> for an identity
  with an entry has run \<open>unregister\<close> on the entry and taken the entry out. \<open>unregister\<close>
  returns \<open>nil\<close> only with the cancellation channel closed and the hotkey no longer
  registered, and it does return so when the event loop is running and has an iteration
  with no message pending. The closed channel is observed by the event loop alone: at
  its first iteration that finds neither a message nor a closure pending the loop
  returns, calling nothing, and a loop that has returned does nothing. A release-poll
  sub-task behaves the same whether the channel is closed or not: in flight when the
  channel is closed, it still performs, on finding the key released, the secondary
  action of its \<open>press\<close> hotkey, or the action of its \<open>up\<close> hotkey. Once the loop has
  returned, no more effects can follow than there are sub-tasks in flight: each performs
  at most one, and none follows when none is in flight.
\<close>

theorem cancellation_reaches_loop_only:
  "(Unregister os evs w modifier key' = Some (None, w') \<and>
    registeredHotkey w (identity w modifier key') = Some hk \<longrightarrow>
      (\<exists>hk'. unregister os evs hk = Some (None, hk') \<and>
             registeredHotkey w' (identity w modifier key') = None)) \<and>
   (unregister os evs hk = Some (None, hk') \<longrightarrow> canceled hk' \<and> \<not> registered hk') \<and>
   (registered hk \<and> running hk \<and> funcs hk = [] \<and> \<not> canceled hk \<and> \<not> PeekMessage p \<longrightarrow>
      unregister os (Tick p # evs) hk =
        Some (None, hk\<lparr>canceled := True, registered := False\<rparr>)) \<and>
   (running hk \<and> canceled hk \<and> funcs hk = [] \<and> \<not> PeekMessage p \<longrightarrow>
      handle_tick os p hk = hk\<lparr>running := False\<rparr>) \<and>
   (\<not> running hk \<longrightarrow> handle_tick os p hk = hk) \<and>
   poller_tick i s (hk\<lparr>canceled := b\<rparr>) = (poller_tick i s hk)\<lparr>canceled := b\<rparr> \<and>
   (pollers hk = [DownPoller] \<and> keyPress hk \<longrightarrow>
      out (poller_tick 0 0 hk) = out hk @ [press_secondary hk]) \<and>
   (pollers hk = [UpPoller] \<longrightarrow>
      out (poller_tick 0 0 hk) = out hk @ [up_release hk]) \<and>
   (\<not> running hk \<longrightarrow>
      length (out (run os evs hk)) \<le> length (out hk) + length (pollers hk))"
proof (intro conjI impI)
  assume "Unregister os evs w modifier key' = Some (None, w') \<and>
    registeredHotkey w (identity w modifier key') = Some hk"
  then show "\<exists>hk'. unregister os evs hk = Some (None, hk') \<and>
             registeredHotkey w' (identity w modifier key') = None"
    using Unregister_success by blast
next
  assume "unregister os evs hk = Some (None, hk')"
  then show "canceled hk'" "\<not> registered hk'"
    using unregister_closes by blast+
next
  assume "registered hk \<and> running hk \<and> funcs hk = [] \<and> \<not> canceled hk \<and> \<not> PeekMessage p"
  then show "unregister os (Tick p # evs) hk =
        Some (None, hk\<lparr>canceled := True, registered := False\<rparr>)"
    by (simp add: unregister_idle)
next
  assume "running hk \<and> canceled hk \<and> funcs hk = [] \<and> \<not> PeekMessage p"
  then show "handle_tick os p hk = hk\<lparr>running := False\<rparr>"
    by (simp add: handle_tick_canceled)
next
  assume "\<not> running hk"
  then show "handle_tick os p hk = hk"
    by (rule handle_tick_returned)
next
  show "poller_tick i s (hk\<lparr>canceled := b\<rparr>) = (poller_tick i s hk)\<lparr>canceled := b\<rparr>"
    by (rule poller_tick_ignores_canceled)
next
  assume "pollers hk = [DownPoller] \<and> keyPress hk"
  then show "out (poller_tick 0 0 hk) = out hk @ [press_secondary hk]"
    by (simp add: poller_tick_release_press)
next
  assume "pollers hk = [UpPoller]"
  then show "out (poller_tick 0 0 hk) = out hk @ [up_release hk]"
    by (rule poller_tick_release_up)
next
  assume "\<not> running hk"
  from run_potential [OF this, of os evs]
  show "length (out (run os evs hk)) \<le> length (out hk) + length (pollers hk)"
    by simp
qed

theorem cancellation_reaches_loop_only_witness:
  "unregister os_accepts [Tick idle_poll] hk_held = Some (None, hk_unregistered) \<and>
   canceled hk_unregistered \<and>
   (\<exists>hk'. unregister os_accepts [Tick idle_poll] hk_held = Some (None, hk') \<and>
          registeredHotkey \<lparr>registeredHotkey = Map.empty, hotkeyIdCounter = 1, splitStr = ''_''\<rparr>
            ''csdpress'' = None) \<and>
   handle_tick os_accepts idle_poll hk_unregistered = hk_unregistered\<lparr>running := False\<rparr> \<and>
   out (poller_tick 0 0 hk_unregistered) = [Call 7, Call 8] \<and>
   out (poller_tick 0 0 ((New [ModCtrl] 0x5A)\<lparr>Signal := ''up'', Callbacks := [7], canceled := True,
          keyUp := True, pollers := [UpPoller]\<rparr>)) =
     [Call 7] \<and>
   length (out (run os_accepts [Poll 0 0, Tick hotkey_poll, Poll 0 0]
                  (hk_unregistered\<lparr>running := False\<rparr>))) \<le> 2"
proof -
  note at_held =
    cancellation_reaches_loop_only
      [where hk = hk_held and os = os_accepts and p = idle_poll and evs = "[]"]
  note at_world =
    cancellation_reaches_loop_only
      [where hk = hk_held and os = os_accepts and evs = "[Tick idle_poll]"
         and hk' = hk_unregistered and w = world_held and modifier = "''cs_d''"
         and key' = "''press''"
         and w' = "\<lparr>registeredHotkey = Map.empty, hotkeyIdCounter = 1, splitStr = ''_''\<rparr>"]
  note at_unregistered =
    cancellation_reaches_loop_only
      [where hk = hk_unregistered and os = os_accepts and p = idle_poll]
  note at_up =
    cancellation_reaches_loop_only
      [where hk = "(New [ModCtrl] 0x5A)\<lparr>Signal := ''up'', Callbacks := [7], canceled := True,
          keyUp := True, pollers := [UpPoller]\<rparr>"]
  note at_returned =
    cancellation_reaches_loop_only
      [where hk = "hk_unregistered\<lparr>running := False\<rparr>" and os = os_accepts
         and evs = "[Poll 0 0, Tick hotkey_poll, Poll 0 0]"]
  have held: "registered hk_held \<and> running hk_held \<and> funcs hk_held = [] \<and>
              \<not> canceled hk_held \<and> \<not> PeekMessage idle_poll"
    by (simp add: hk_held_def idle_poll_def)
  have unreg: "running hk_unregistered \<and> canceled hk_unregistered \<and>
               funcs hk_unregistered = [] \<and> \<not> PeekMessage idle_poll"
    by (simp add: hk_unregistered_def hk_held_def idle_poll_def)
  have flight: "pollers hk_unregistered = [DownPoller] \<and> keyPress hk_unregistered"
    by (simp add: hk_unregistered_def hk_held_def)
  have returned: "\<not> running (hk_unregistered\<lparr>running := False\<rparr>)"
    by simp
  have id: "identity world_held ''cs_d'' ''press'' = ''csdpress''"
    by (simp add: identity_def world_held_def getHkInfo_cs_d_press)
  have entry: "registeredHotkey world_held (identity world_held ''cs_d'' ''press'') = Some hk_held"
    unfolding id by (simp add: world_held_def)
  from at_held held
  have 1: "unregister os_accepts [Tick idle_poll] hk_held = Some (None, hk_unregistered)"
    by (simp add: hk_unregistered_def)
  from at_world 1 have 2: "canceled hk_unregistered"
    by blast
  from at_world entry Unregister_world_held [of os_accepts]
  have 3: "\<exists>hk'. unregister os_accepts [Tick idle_poll] hk_held = Some (None, hk') \<and>
          registeredHotkey \<lparr>registeredHotkey = Map.empty, hotkeyIdCounter = 1, splitStr = ''_''\<rparr>
            ''csdpress'' = None"
    unfolding id by blast
  from at_unregistered unreg
  have 4: "handle_tick os_accepts idle_poll hk_unregistered = hk_unregistered\<lparr>running := False\<rparr>"
    by simp
  from at_unregistered flight
  have "out (poller_tick 0 0 hk_unregistered) =
        out hk_unregistered @ [press_secondary hk_unregistered]"
    by simp
  then have 5: "out (poller_tick 0 0 hk_unregistered) = [Call 7, Call 8]"
    by (simp add: hk_unregistered_def hk_held_def press_secondary_def)
  from at_up
  have "out (poller_tick 0 0 ((New [ModCtrl] 0x5A)\<lparr>Signal := ''up'', Callbacks := [7], canceled := True,
          keyUp := True, pollers := [UpPoller]\<rparr>)) =
        out ((New [ModCtrl] 0x5A)\<lparr>Signal := ''up'', Callbacks := [7], canceled := True,
          keyUp := True, pollers := [UpPoller]\<rparr>) @
        [up_release ((New [ModCtrl] 0x5A)\<lparr>Signal := ''up'', Callbacks := [7], canceled := True,
          keyUp := True, pollers := [UpPoller]\<rparr>)]"
    by simp
  then have 6: "out (poller_tick 0 0 ((New [ModCtrl] 0x5A)\<lparr>Signal := ''up'', Callbacks := [7], canceled := True,
          keyUp := True, pollers := [UpPoller]\<rparr>)) =
     [Call 7]"
    by (simp add: New_def up_release_def)
  from at_returned returned
  have "length (out (run os_accepts [Poll 0 0, Tick hotkey_poll, Poll 0 0]
                  (hk_unregistered\<lparr>running := False\<rparr>))) \<le>
        length (out (hk_unregistered\<lparr>running := False\<rparr>)) +
        length (pollers (hk_unregistered\<lparr>running := False\<rparr>))"
    by blast
  then have 7: "length (out (run os_accepts [Poll 0 0, Tick hotkey_poll, Poll 0 0]
                  (hk_unregistered\<lparr>running := False\<rparr>))) \<le> 2"
    by (simp add: hk_unregistered_def hk_held_def)
  from 1 2 3 4 5 6 7 show ?thesis by simp
qed

end
